(* ===== verification/Outbox_Prelude.thy ===== *)
theory Outbox_Prelude
  imports Main "HOL-Library.Multiset" "HOL-Library.Sublist" "HOL-Library.Word"
begin

text \<open>
  Shared vocabulary of the development.

  The code is asynchronous Rust. An \<open>async fn\<close> that returns \<open>Result<A, E>\<close> and acts on
  the outside world (a database, a broker, a Redis server, the clock) is a \<open>call\<close>: a function
  from the world before the call to the result and the world after it. The \<open>?\<close> operator
  is \<open>and_then\<close>: it runs the continuation on \<open>Ok\<close> and returns the error unchanged otherwise,
  keeping every effect made so far. A Rust panic is the third outcome of a computation and is a
  constructor of its own.

  The lemmas below are about lists (stable sorting, \<open>take\<close>, selection of rows by key) and are
  what the SQL statements and the batch loops share.
\<close>

section \<open>Fallible, effectful calls\<close>

type_synonym ('s, 'e, 'a) call = "'s \<Rightarrow> ('e + 'a) \<times> 's"

definition ret :: "'a \<Rightarrow> ('s, 'e, 'a) call" where
  "ret x s = (Inr x, s)"

definition throw :: "'e \<Rightarrow> ('s, 'e, 'a) call" where
  "throw e s = (Inl e, s)"

definition and_then :: "('s, 'e, 'a) call \<Rightarrow> ('a \<Rightarrow> ('s, 'e, 'b) call) \<Rightarrow> ('s, 'e, 'b) call" where
  "and_then m k s = (case m s of (Inl e, t) \<Rightarrow> (Inl e, t) | (Inr x, t) \<Rightarrow> k x t)"

datatype 'a exec = Return 'a | Panic string

named_theorems call_simps \<open>equations that run a call\<close>

lemma ret_run [call_simps, simp]: "ret x s = (Inr x, s)"
  by (simp add: ret_def)

lemma throw_run [call_simps, simp]: "throw e s = (Inl e, s)"
  by (simp add: throw_def)

lemma and_then_Inl [call_simps]: "m s = (Inl e, t) \<Longrightarrow> and_then m k s = (Inl e, t)"
  by (simp add: and_then_def)

lemma and_then_Inr [call_simps]: "m s = (Inr x, t) \<Longrightarrow> and_then m k s = k x t"
  by (simp add: and_then_def)

lemma and_then_okE:
  assumes "and_then m k s = (Inr y, u)"
  obtains x t where "m s = (Inr x, t)" and "k x t = (Inr y, u)"
  using assms by (auto simp: and_then_def split: prod.splits sum.splits)

lemma and_then_errE:
  assumes "and_then m k s = (Inl e, u)"
  obtains (first) "m s = (Inl e, u)"
  | (later) x t where "m s = (Inr x, t)" and "k x t = (Inl e, u)"
  using assms by (auto simp: and_then_def split: prod.splits sum.splits)

lemma and_then_assoc: "and_then (and_then m f) g = and_then m (\<lambda>x. and_then (f x) g)"
  by (rule ext) (auto simp: and_then_def split: prod.splits sum.splits)

lemma and_then_ret_left: "and_then (ret x) k = k x"
  by (rule ext) (simp add: and_then_def)

section \<open>Selecting rows of a list\<close>

lemma filter_map_key: "(\<And>x. P (f x) = P x) \<Longrightarrow> filter P (map f xs) = map f (filter P xs)"
  by (induction xs) auto

lemma set_filter_mset_eq: "mset xs = mset ys \<Longrightarrow> set (filter P xs) = set (filter P ys)"
  by (metis mset_filter set_mset_mset)

lemma length_filter_mset_eq: "mset xs = mset ys \<Longrightarrow> length (filter P xs) = length (filter P ys)"
  by (metis mset_filter size_mset)

lemma distinct_map_mset_eq: "mset xs = mset ys \<Longrightarrow> distinct (map f xs) = distinct (map f ys)"
  by (metis mset_eq_imp_distinct_iff mset_map)

lemma sorted_take_drop_le:
  assumes "sorted (map f xs)" and "x \<in> set (take n xs)" and "y \<in> set (drop n xs)"
  shows "f x \<le> f y"
proof -
  have "sorted (map f (take n xs) @ map f (drop n xs))"
    using assms(1) by (metis append_take_drop_id map_append)
  then show ?thesis using assms(2,3) by (auto simp: sorted_append)
qed

lemma key_unique:
  assumes "distinct (map f xs)" and "x \<in> set xs" and "y \<in> set xs" and "f x = f y"
  shows "x = y"
  using assms by (meson distinct_map inj_onD)

lemma filter_key_self:
  assumes "distinct (map f xs)" and "set ys \<subseteq> set xs"
  shows "set (filter (\<lambda>x. f x \<in> f ` set ys) xs) = set ys"
  using assms by (auto dest: key_unique)

lemma length_filter_le_length_filter:
  "(\<And>x. x \<in> set xs \<Longrightarrow> P x \<Longrightarrow> Q x) \<Longrightarrow> length (filter P xs) \<le> length (filter Q xs)"
  by (induction xs) (auto simp: le_SucI)

lemma length_filter_split:
  "length (filter P xs) = length (filter (\<lambda>x. P x \<and> Q x) xs) + length (filter (\<lambda>x. P x \<and> \<not> Q x) xs)"
  by (induction xs) auto

lemma subseq_subset: "subseq xs ys \<Longrightarrow> set xs \<subseteq> set ys"
  by (auto simp: subseq_conv_nths dest: in_set_nthsD)

lemma subseq_distinct: "subseq xs ys \<Longrightarrow> distinct ys \<Longrightarrow> distinct xs"
  by (auto simp: subseq_conv_nths)

lemma map_of_key_eq:
  assumes "distinct (map f xs)" and "x \<in> set xs"
  shows "map_of (map (\<lambda>x. (f x, g x)) xs) (f x) = Some (g x)"
proof -
  have "distinct (map fst (map (\<lambda>x. (f x, g x)) xs))" using assms(1) by (simp add: comp_def)
  then show ?thesis using assms(2) by (auto intro!: map_of_is_SomeI)
qed

lemma filter_key_at_most_one: "distinct (map fst f) \<Longrightarrow> length (filter (\<lambda>(i, _). a = i) f) \<le> 1"
proof (induction f)
  case Nil
  then show ?case by simp
next
  case (Cons p f)
  have "filter (\<lambda>(i, _). fst p = i) f = []" using Cons.prems
    by (simp add: filter_empty_conv split_beta) (metis imageI)
  with Cons show ?case by (cases p) auto
qed

lemma distinct_concat_at_most_one:
  assumes "\<And>d. length (g d) \<le> 1" and "\<And>d x. x \<in> set (g d) \<Longrightarrow> h x = k d" and "distinct (map k ds)"
  shows "distinct (map h (concat (map g ds)))"
  using assms(3)
proof (induction ds)
  case Nil
  then show ?case by simp
next
  case (Cons d ds)
  have "distinct (map h (g d))" using assms(1)[of d] by (cases "g d") auto
  moreover have "h ` set (concat (map g ds)) \<subseteq> k ` set ds" using assms(2) by auto
  ultimately show ?case using Cons assms(2) by (auto dest: assms(2))
qed

text \<open>What a call keeps, whatever it returns.\<close>

definition keeps :: "('s \<Rightarrow> bool) \<Rightarrow> ('s, 'e, 'r) call \<Rightarrow> bool" where
  "keeps P a \<longleftrightarrow> (\<forall>s. P s \<longrightarrow> P (snd (a s)))"

lemma keeps_run: "keeps P a \<Longrightarrow> a s = (r, t) \<Longrightarrow> P s \<Longrightarrow> P t"
  unfolding keeps_def by (metis snd_conv)

lemma keeps_ret [simp]: "keeps P (ret x)" "keeps P (throw e)"
  by (simp_all add: keeps_def ret_def throw_def)

lemma keeps_and_then: "keeps P a \<Longrightarrow> (\<And>x. keeps P (k x)) \<Longrightarrow> keeps P (and_then a k)"
  unfolding keeps_def and_then_def by (force split: prod.split sum.split)

end
