(* ===== verification/Outbox_Types.thy ===== *)
theory Outbox_Types
  imports Outbox_Prelude "HOL-Library.Char_ord"
begin

text \<open>
  The data of \<^verbatim>\<open>outbox-core\<close>: the newtypes of \<^verbatim>\<open>object.rs\<close>, the event row and its lifecycle of
  \<^verbatim>\<open>model.rs\<close>, the flat error enum of \<^verbatim>\<open>error.rs\<close>, the configuration of \<^verbatim>\<open>config.rs\<close> and the
  dead-letter entry of \<^verbatim>\<open>dlq/model.rs\<close>.

  A UUID is its 128-bit value. A Rust \<open>String\<close> is its UTF-8 bytes, one HOL \<open>char\<close> each. An
  instant (\<open>OffsetDateTime\<close>) is the number of microseconds since the Unix epoch, the resolution
  a \<open>timestamptz\<close> column keeps. The random UUID and the wall clock that \<open>Event::new\<close> reads are
  arguments.
\<close>

section \<open>Machine types\<close>

type_synonym u32 = "32 word"
type_synonym u64 = "64 word"
type_synonym i64 = "64 word"
type_synonym uuid = "128 word"
type_synonym instant = int

section \<open>Newtypes (object.rs)\<close>

datatype event_id = EventId uuid

definition EventId_default :: "uuid \<Rightarrow> event_id" where
  "EventId_default new_v4 = EventId new_v4"

definition EventId_load :: "uuid \<Rightarrow> event_id" where
  "EventId_load u = EventId u"

fun as_uuid :: "event_id \<Rightarrow> uuid" where
  "as_uuid (EventId u) = u"

datatype idempotency_token = IdempotencyToken string

definition IdempotencyToken_new :: "string \<Rightarrow> idempotency_token" where
  "IdempotencyToken_new token = IdempotencyToken token"

fun token_as_str :: "idempotency_token \<Rightarrow> string" where
  "token_as_str (IdempotencyToken t) = t"

fun token_as_bytes :: "idempotency_token \<Rightarrow> 8 word list" where
  "token_as_bytes (IdempotencyToken t) = map of_char t"

datatype event_type = EventType string

definition EventType_new :: "string \<Rightarrow> event_type" where
  "EventType_new ty = EventType ty"

definition EventType_load :: "string \<Rightarrow> event_type" where
  "EventType_load value = EventType value"

fun event_type_as_str :: "event_type \<Rightarrow> string" where
  "event_type_as_str (EventType t) = t"

fun display_event_type :: "event_type \<Rightarrow> string" where
  "display_event_type (EventType t) = t"

datatype 'p payload = Payload 'p

definition Payload_new :: "'p \<Rightarrow> 'p payload" where
  "Payload_new p = Payload p"

definition Payload_from_ref :: "'p \<Rightarrow> 'p payload" where
  "Payload_from_ref v = Payload v"

fun as_value :: "'p payload \<Rightarrow> 'p" where
  "as_value (Payload p) = p"

lemma EventId_load_as_uuid [simp]: "EventId_load (as_uuid i) = i"
  by (cases i) (simp add: EventId_load_def)

lemma as_uuid_load [simp]: "as_uuid (EventId_load u) = u"
  by (simp add: EventId_load_def)

lemma as_uuid_eq_iff [simp]: "as_uuid a = as_uuid b \<longleftrightarrow> a = b"
  by (cases a; cases b) simp

lemma inj_as_uuid [simp, intro]: "inj as_uuid"
  by (simp add: inj_def)

lemma token_as_str_inject [simp]: "token_as_str a = token_as_str b \<longleftrightarrow> a = b"
  by (cases a; cases b) simp

lemma display_event_type_as_str: "display_event_type t = event_type_as_str t"
  by (cases t) simp

text \<open>Event identifiers are ordered by their UUID, as the primary key index orders them.\<close>

instantiation event_id :: linorder
begin
definition less_eq_event_id :: "event_id \<Rightarrow> event_id \<Rightarrow> bool" where
  "less_eq_event_id a b = (as_uuid a \<le> as_uuid b)"
definition less_event_id :: "event_id \<Rightarrow> event_id \<Rightarrow> bool" where
  "less_event_id a b = (as_uuid a < as_uuid b)"
instance
  by standard (auto simp: less_eq_event_id_def less_event_id_def order.strict_iff_order)
end

section \<open>Events and their lifecycle (model.rs)\<close>

datatype event_status = Pending | Processing | Sent

record 'p event =
  eid :: event_id
  idempotency_token :: "idempotency_token option"
  event_type :: event_type
  payload :: "'p payload"
  created_at :: instant
  locked_until :: instant
  status :: event_status

definition UNIX_EPOCH :: instant where
  "UNIX_EPOCH = 0"

definition Event_new ::
  "uuid \<Rightarrow> instant \<Rightarrow> event_type \<Rightarrow> 'p payload \<Rightarrow> idempotency_token option \<Rightarrow> 'p event" where
  "Event_new new_v4 now_utc ty pl tok =
     \<lparr> eid = EventId_default new_v4,
       idempotency_token = tok,
       event_type = ty,
       payload = pl,
       created_at = now_utc,
       locked_until = UNIX_EPOCH,
       status = Pending \<rparr>"

text \<open>The lifecycle is a chain \<open>Pending < Processing < Sent\<close>; rows only move up it.\<close>

fun stage :: "event_status \<Rightarrow> nat" where
  "stage Pending = 0"
| "stage Processing = 1"
| "stage Sent = 2"

lemma stage_inject [simp]: "stage a = stage b \<longleftrightarrow> a = b"
  by (cases a; cases b) simp_all

instantiation event_status :: linorder
begin
definition less_eq_event_status :: "event_status \<Rightarrow> event_status \<Rightarrow> bool" where
  "less_eq_event_status a b = (stage a \<le> stage b)"
definition less_event_status :: "event_status \<Rightarrow> event_status \<Rightarrow> bool" where
  "less_event_status a b = (stage a < stage b)"
instance
  by standard (auto simp: less_eq_event_status_def less_event_status_def)
end

lemma status_le_simps [simp]:
  "Pending \<le> st" "st \<le> Sent" "Sent \<le> st \<longleftrightarrow> st = Sent" "Processing \<le> st \<longleftrightarrow> st \<noteq> Pending"
  "st \<le> Pending \<longleftrightarrow> st = Pending" "st \<le> Processing \<longleftrightarrow> st \<noteq> Sent"
  by (cases st; simp add: less_eq_event_status_def)+

section \<open>Errors (error.rs)\<close>

datatype outbox_error =
    InfrastructureError string
  | DuplicateEvent
  | DatabaseError string
  | BrokerError string
  | ConfigError string

fun display_outbox_error :: "outbox_error \<Rightarrow> string" where
  "display_outbox_error (InfrastructureError m) = ''Infrastructure error: '' @ m"
| "display_outbox_error DuplicateEvent = ''Duplicate error''"
| "display_outbox_error (DatabaseError m) = ''Database error: '' @ m"
| "display_outbox_error (BrokerError m) = ''Broker error: '' @ m"
| "display_outbox_error (ConfigError m) = ''Config error: '' @ m"

type_synonym ('s, 'a) io = "('s, outbox_error, 'a) call"

section \<open>Configuration (config.rs)\<close>

datatype 'p idempotency_strategy =
    Provided
  | Custom "'p event \<Rightarrow> string"
  | UuidV7
  | NoToken

record 'p outbox_config =
  batch_size :: u32
  retention_days :: i64
  gc_interval_secs :: u64
  poll_interval_secs :: u64
  lock_timeout_mins :: i64
  idempotency_strategy :: "'p idempotency_strategy"
  dlq_threshold :: u32
  dlq_interval_secs :: u64

definition OutboxConfig_default :: "'p outbox_config" where
  "OutboxConfig_default =
     \<lparr> batch_size = 100,
       retention_days = 7,
       gc_interval_secs = 3600,
       poll_interval_secs = 10,
       lock_timeout_mins = 5,
       idempotency_strategy = NoToken,
       dlq_threshold = 10,
       dlq_interval_secs = 300 \<rparr>"

section \<open>Dead-letter entries (dlq/model.rs)\<close>

record dlq_entry =
  dlq_id :: event_id
  failure_count :: u32
  last_error :: "string option"

definition DlqEntry_new :: "event_id \<Rightarrow> u32 \<Rightarrow> string option \<Rightarrow> dlq_entry" where
  "DlqEntry_new i n le = \<lparr> dlq_id = i, failure_count = n, last_error = le \<rparr>"

end
