(* ===== verification/Outbox_Traits.thy ===== *)
theory Outbox_Traits
  imports Outbox_Types
begin

text \<open>
  The traits of \<^verbatim>\<open>outbox-core\<close> through which the core reaches its collaborators:
  \<open>OutboxStorage\<close> and \<open>OutboxWriter\<close> (\<^verbatim>\<open>storage.rs\<close>), \<open>Transport\<close> (\<^verbatim>\<open>publisher.rs\<close>),
  \<open>DlqHeap\<close> (\<^verbatim>\<open>dlq/storage.rs\<close>) and \<open>IdempotencyStorageProvider\<close>
  (\<^verbatim>\<open>idempotency/storage.rs\<close>). A trait object is the record of its methods; every method is a call
  on the world \<open>'s\<close>, so a method may change anything its backend owns, and what other tasks do
  while the method is awaited is part of what it does to the world.

  The locales state what each trait's documentation promises. A call that returns an error may
  still have taken effect (the acknowledgement was lost), but only as a whole: that is the
  documentation's ``must not partially commit''. \<open>status_of\<close> reads the lifecycle
  stage of a row of the active table, \<open>dead\<close> the ids of the dead-letter table, \<open>accepted\<close> the ids
  the broker has accepted so far and \<open>counts\<close> the failure counter of an id (0 when untracked).
\<close>

section \<open>The method tables\<close>

record ('s, 'p) outbox_storage =
  fetch_next_to_process :: "u32 \<Rightarrow> ('s, 'p event list) io"
  update_status :: "event_id list \<Rightarrow> event_status \<Rightarrow> ('s, unit) io"
  delete_garbage :: "('s, unit) io"
  wait_for_notification :: "string \<Rightarrow> ('s, unit) io"
  quarantine_events :: "dlq_entry list \<Rightarrow> ('s, unit) io"

definition quarantine_events_default :: "dlq_entry list \<Rightarrow> ('s, unit) io" where
  "quarantine_events_default entries = throw (ConfigError
     (''OutboxStorage::quarantine_events: DLQ is not implemented by this backend '' @
      ''(rebuild the storage crate with its `dlq` feature enabled)''))"

record ('s, 'p) outbox_writer =
  insert_event :: "'p event \<Rightarrow> ('s, unit) io"

record ('s, 'p) transport =
  publish :: "'p event \<Rightarrow> ('s, unit) io"

record 's dlq_heap =
  record_failure :: "event_id \<Rightarrow> ('s, unit) io"
  record_success :: "event_id \<Rightarrow> ('s, unit) io"
  drain_exceeded :: "u32 \<Rightarrow> ('s, dlq_entry list) io"

record 's idempotency_provider =
  try_reserve :: "idempotency_token \<Rightarrow> ('s, bool) io"

text \<open>\<open>NoIdempotency\<close>: every token is accepted, and nothing is remembered.\<close>

definition NoIdempotency :: "'s idempotency_provider" where
  "NoIdempotency = \<lparr> try_reserve = (\<lambda>token. ret True) \<rparr>"

section \<open>The storage contract\<close>

locale storage_contract =
  fixes st :: "('s, 'p) outbox_storage"
    and status_of :: "'s \<Rightarrow> event_id \<Rightarrow> event_status option"
    and dead :: "'s \<Rightarrow> event_id set"
    and sinv :: "'s \<Rightarrow> bool"
  assumes fetch_ok:
    "sinv s \<Longrightarrow> fetch_next_to_process st l s = (Inr evs, t) \<Longrightarrow>
       sinv t \<and> dead t = dead s \<and> length evs \<le> unat l \<and> distinct (map eid evs) \<and>
       (\<forall>e \<in> set evs. status e = Processing \<and>
          status_of s (eid e) \<in> {Some Pending, Some Processing}) \<and>
       status_of t = (\<lambda>i. if i \<in> eid ` set evs then Some Processing else status_of s i)"
    and fetch_err:
    "sinv s \<Longrightarrow> fetch_next_to_process st l s = (Inl e, t) \<Longrightarrow>
       sinv t \<and> dead t = dead s \<and>
       (\<forall>i. status_of t i = status_of s i \<or>
         status_of s i \<in> {Some Pending, Some Processing} \<and> status_of t i = Some Processing)"
    and update_ok:
    "sinv s \<Longrightarrow> update_status st ids x s = (Inr u, t) \<Longrightarrow>
       sinv t \<and> dead t = dead s \<and>
       status_of t = (\<lambda>i. if i \<in> set ids then map_option (\<lambda>_. x) (status_of s i) else status_of s i)"
    and update_err:
    "sinv s \<Longrightarrow> update_status st ids x s = (Inl e, t) \<Longrightarrow>
       sinv t \<and> dead t = dead s \<and>
       (status_of t = status_of s \<or>
        status_of t =
          (\<lambda>i. if i \<in> set ids then map_option (\<lambda>_. x) (status_of s i) else status_of s i))"
    and garbage:
    "sinv s \<Longrightarrow> delete_garbage st s = (res, t) \<Longrightarrow>
       sinv t \<and> dead t = dead s \<and>
       (\<forall>i. status_of t i = status_of s i \<or> status_of s i = Some Sent \<and> status_of t i = None)"
    and quarantine_ok:
    "sinv s \<Longrightarrow> quarantine_events st es s = (Inr v, t) \<Longrightarrow>
       sinv t \<and>
       status_of t = (\<lambda>i. if i \<in> dlq_id ` set es then None else status_of s i) \<and>
       dead t = dead s \<union> {i \<in> dlq_id ` set es. status_of s i \<noteq> None}"
    and quarantine_err:
    "sinv s \<Longrightarrow> quarantine_events st es s = (Inl e, t) \<Longrightarrow>
       sinv t \<and>
       (status_of t = status_of s \<and> dead t = dead s \<or>
        status_of t = (\<lambda>i. if i \<in> dlq_id ` set es then None else status_of s i) \<and>
        dead t = dead s \<union> {i \<in> dlq_id ` set es. status_of s i \<noteq> None})"
begin

text \<open>No operation of the worker, the collector or the reaper moves a row back down its lifecycle.\<close>

lemma fetch_forward:
  assumes "sinv s" and "fetch_next_to_process st l s = (res, t)" and "status_of s i = Some x"
  shows "\<exists>y. status_of t i = Some y \<and> x \<le> y"
proof (cases res)
  case (Inl e)
  with assms(2) have "fetch_next_to_process st l s = (Inl e, t)" by simp
  from fetch_err[OF assms(1) this] have "status_of t i = status_of s i \<or>
      status_of s i \<in> {Some Pending, Some Processing} \<and> status_of t i = Some Processing"
    by blast
  with assms(3) show ?thesis by auto
next
  case (Inr evs)
  with assms(2) have fetched: "fetch_next_to_process st l s = (Inr evs, t)" by simp
  note law = fetch_ok[OF assms(1) fetched]
  show ?thesis
  proof (cases "i \<in> eid ` set evs")
    case True
    with law assms(3) have "x = Pending \<or> x = Processing" by auto
    with True law show ?thesis by auto
  next
    case False
    with law assms(3) show ?thesis by auto
  qed
qed

lemma fetch_sent:
  assumes "sinv s" and "fetch_next_to_process st l s = (res, t)"
  shows "sinv t \<and> dead t = dead s \<and> (\<forall>i. status_of t i = Some Sent \<longrightarrow> status_of s i = Some Sent)"
proof (cases res)
  case (Inl e)
  with assms(2) have "fetch_next_to_process st l s = (Inl e, t)" by simp
  from fetch_err[OF assms(1) this] show ?thesis by (metis event_status.distinct(5) option.inject)
next
  case (Inr evs)
  with assms(2) have "fetch_next_to_process st l s = (Inr evs, t)" by simp
  from fetch_ok[OF assms(1) this] show ?thesis by auto
qed

lemma update_any:
  assumes "sinv s" and "update_status st ids x s = (res, t)"
  shows "sinv t \<and> dead t = dead s \<and> (status_of t = status_of s \<or>
    status_of t = (\<lambda>i. if i \<in> set ids then map_option (\<lambda>_. x) (status_of s i) else status_of s i))"
  using assms(2) update_ok[OF assms(1)] update_err[OF assms(1)] by (cases res) blast+

lemma update_sent:
  assumes "sinv s" and "update_status st ids Sent s = (res, t)"
  shows "sinv t \<and> (\<forall>i. status_of t i = Some Sent \<longrightarrow> status_of s i = Some Sent \<or> i \<in> set ids)"
  using update_any[OF assms] by (auto split: if_splits)

lemma update_sent_forward:
  assumes "sinv s" and "update_status st ids Sent s = (res, t)" and "status_of s i = Some x"
  shows "\<exists>y. status_of t i = Some y \<and> x \<le> y"
  using update_any[OF assms(1,2)] assms(3) by auto


lemma quarantine_never_in_both:
  assumes "sinv s" and "quarantine_events st es s = (res, t)"
    and "\<forall>i. status_of s i \<noteq> None \<longrightarrow> i \<notin> dead s"
  shows "\<forall>i. status_of t i \<noteq> None \<longrightarrow> i \<notin> dead t"
proof -
  have "status_of t = status_of s \<and> dead t = dead s \<or>
    status_of t = (\<lambda>i. if i \<in> dlq_id ` set es then None else status_of s i) \<and>
    dead t = dead s \<union> {i \<in> dlq_id ` set es. status_of s i \<noteq> None}"
    using assms(2) quarantine_ok[OF assms(1)] quarantine_err[OF assms(1)] by (cases res) blast+
  with assms(3) show ?thesis by (auto split: if_splits)
qed

end

section \<open>The transport contract\<close>

text \<open>
  \<open>accepted\<close> is the broker's log. A publish that returns \<open>Ok\<close> has appended the event to it; one
  that returns an error may have (the broker took the message and the acknowledgement was lost).
\<close>

locale transport_contract =
  fixes tr :: "('s, 'p) transport"
    and accepted :: "'s \<Rightarrow> event_id list"
  assumes publish_ok:
    "publish tr e s = (Inr u, t) \<Longrightarrow> accepted t = accepted s @ [eid e]"
    and publish_err:
    "publish tr e s = (Inl err, t) \<Longrightarrow> accepted t = accepted s \<or> accepted t = accepted s @ [eid e]"
begin

lemma publish_log:
  assumes "publish tr e s = (r, t)"
  shows "accepted t = accepted s \<or> accepted t = accepted s @ [eid e]"
  using assms publish_ok publish_err by (cases r) blast+

end

section \<open>The dead-letter heap contract\<close>

text \<open>
  Counters are exact while they stay below \<open>2 ^ 53\<close>, the range in which a double-precision score
  counts without rounding; the count handed out is a \<open>u32\<close> and saturates.
\<close>

definition count_u32 :: "nat \<Rightarrow> u32" where
  "count_u32 n = (if n < 2 ^ 32 then of_nat n else 4294967295)"

lemma unat_count_u32: "unat (count_u32 n) = min n (2 ^ 32 - 1)"
proof (cases "n < 2 ^ 32")
  case True
  then have "unat (of_nat n :: u32) = n" by (simp add: unat_of_nat take_bit_nat_eq_self)
  with True show ?thesis by (simp add: count_u32_def)
next
  case False
  have "unat (4294967295 :: u32) = 2 ^ 32 - 1" by simp
  with False show ?thesis by (simp add: count_u32_def)
qed

locale dlq_heap_contract =
  fixes hp :: "'s dlq_heap"
    and counts :: "'s \<Rightarrow> event_id \<Rightarrow> nat"
    and hinv :: "'s \<Rightarrow> bool"
  assumes failure_ok:
    "hinv s \<Longrightarrow> counts s i < 2 ^ 53 \<Longrightarrow> record_failure hp i s = (Inr u, t) \<Longrightarrow>
       hinv t \<and> counts t = (counts s)(i := Suc (counts s i))"
    and success_ok:
    "hinv s \<Longrightarrow> record_success hp i s = (Inr u, t) \<Longrightarrow>
       hinv t \<and> counts t = (counts s)(i := 0)"
    and drain_ok:
    "hinv s \<Longrightarrow> drain_exceeded hp thr s = (Inr es, t) \<Longrightarrow>
       hinv t \<and> distinct (map dlq_id es) \<and>
       dlq_id ` set es = {i. 0 < counts s i \<and> unat thr \<le> counts s i} \<and>
       (\<forall>e \<in> set es. failure_count e = count_u32 (counts s (dlq_id e))) \<and>
       counts t = (\<lambda>i. if unat thr \<le> counts s i then 0 else counts s i)"
begin

text \<open>An id returned by one drain is not returned again until it has failed again.\<close>

lemma drain_disjoint:
  assumes "hinv s" and d1: "drain_exceeded hp thr s = (Inr es, t)"
    and d2: "drain_exceeded hp thr' t = (Inr es', t')"
  shows "dlq_id ` set es \<inter> dlq_id ` set es' = {}"
proof -
  from drain_ok[OF assms(1) d1] have t: "hinv t"
    and ids: "dlq_id ` set es = {i. 0 < counts s i \<and> unat thr \<le> counts s i}"
    and cleared: "counts t = (\<lambda>i. if unat thr \<le> counts s i then 0 else counts s i)"
    by auto
  from drain_ok[OF t d2] have "dlq_id ` set es' \<subseteq> {i. 0 < counts t i}" by auto
  with ids cleared show ?thesis by auto
qed

lemma success_then_not_drained:
  assumes "hinv s" and "record_success hp i s = (Inr u, t)"
    and "drain_exceeded hp thr t = (Inr es, t')"
  shows "i \<notin> dlq_id ` set es"
proof -
  from success_ok[OF assms(1,2)] have t: "hinv t" and "counts t i = 0" by auto
  with drain_ok[OF t assms(3)] show ?thesis by auto
qed

lemma failure_drained_iff:
  assumes "hinv s" and "counts s i < 2 ^ 53" and "record_failure hp i s = (Inr u, t)"
    and "drain_exceeded hp thr t = (Inr es, t')"
  shows "i \<in> dlq_id ` set es \<longleftrightarrow> unat thr \<le> Suc (counts s i)"
proof -
  from failure_ok[OF assms(1,2,3)] have t: "hinv t" and "counts t i = Suc (counts s i)" by auto
  with drain_ok[OF t assms(4)] show ?thesis by auto
qed

end

section \<open>The reservation contract\<close>

text \<open>
  \<open>reserved\<close> is the set of tokens a provider has handed out and still remembers. A provider that
  keeps the contract grants a token only when nobody holds it.
\<close>

locale reservation_contract =
  fixes ip :: "'s idempotency_provider"
    and reserved :: "'s \<Rightarrow> idempotency_token set"
    and rinv :: "'s \<Rightarrow> bool"
  assumes granted:
    "rinv s \<Longrightarrow> try_reserve ip tok s = (Inr True, t) \<Longrightarrow>
       rinv t \<and> tok \<notin> reserved s \<and> reserved t = insert tok (reserved s)"
    and refused:
    "rinv s \<Longrightarrow> try_reserve ip tok s = (Inr False, t) \<Longrightarrow>
       rinv t \<and> tok \<in> reserved s \<and> reserved t = reserved s"
begin

lemma granted_once:
  assumes "rinv s" and "try_reserve ip tok s = (Inr True, t)"
    and "try_reserve ip tok t = (Inr b, t')"
  shows "\<not> b"
proof
  assume b
  from granted[OF assms(1,2)] have t: "rinv t" and "tok \<in> reserved t" by auto
  with granted[OF t] assms(3) \<open>b\<close> show False by (cases b) auto
qed

end

end
