(* ===== verification/Postgres.thy ===== *)
theory Postgres
  imports Outbox_Traits
begin

text \<open>
  \<^verbatim>\<open>outbox-postgres/src/lib.rs\<close>: the storage and the writer, over the tables of
  \<^verbatim>\<open>migrations/*.sql\<close>. The SQL text is part of the source and each statement is translated into a
  function on the tables. What SQL and the server leave open is an argument, one \<open>stmt_env\<close> per
  statement, taken from the front of \<open>pg_script\<close>:

  \<^item> \<open>delay\<close>: the time that has passed when the statement reads \<open>NOW()\<close>;
  \<^item> \<open>fault\<close>: the statement is refused without effect, or it commits and its acknowledgement is
    lost; the caller sees an error in both cases;
  \<^item> \<open>row_locked\<close>: the rows other transactions hold locked (\<open>SKIP LOCKED\<close> passes over them);
  \<^item> \<open>scan\<close>: the order in which rows are visited and returned, a permutation of the table.

  JSON encoding and decoding (\<open>serde_json\<close> and the user's payload type) and the text of a
  unique-violation message (\<open>sqlx\<close>) are arguments too. A statement is atomic, as a single SQL
  statement in autocommit mode is.
\<close>

section \<open>Tables and environment\<close>

record 'j dead_letter =
  dl_id :: event_id
  dl_idempotency_token :: "idempotency_token option"
  dl_event_type :: event_type
  dl_payload :: "'j payload"
  original_status :: event_status
  dl_created_at :: instant
  dl_locked_until :: instant
  dl_failure_count :: "32 word"
  quarantined_at :: instant
  dl_last_error :: "string option"

datatype pg_fault = Refused string | Ack_lost string

record 'j stmt_env =
  delay :: nat
  fault :: "pg_fault option"
  row_locked :: "event_id list"
  scan :: "'j event list \<Rightarrow> 'j event list"

record listen_env =
  connect_error :: "string option"
  listen_error :: "string option"
  recv_error :: "string option"

record 'j pg_state =
  outbox_events :: "'j event list"
  outbox_dead_letters :: "'j dead_letter list"
  pg_now :: instant
  pg_script :: "'j stmt_env list"
  listener :: "string option"
  listen_script :: "listen_env list"

record ('p, 'j) pg_client =
  to_value :: "'p \<Rightarrow> string + 'j"
  from_value :: "'j \<Rightarrow> string + 'p"
  duplicate_key_text :: "string \<Rightarrow> string"

definition quiet_env :: "'j stmt_env" where
  "quiet_env = \<lparr> delay = 0, fault = None, row_locked = [], scan = (\<lambda>xs. xs) \<rparr>"

definition quiet_listen :: listen_env where
  "quiet_listen = \<lparr> connect_error = None, listen_error = None, recv_error = None \<rparr>"

definition next_env :: "('j, 'x) pg_state_scheme \<Rightarrow> 'j stmt_env" where
  "next_env s = (case pg_script s of [] \<Rightarrow> quiet_env | env # _ \<Rightarrow> env)"

definition advance :: "('j, 'x) pg_state_scheme \<Rightarrow> ('j, 'x) pg_state_scheme" where
  "advance s = s\<lparr> pg_now := pg_now s + int (delay (next_env s)), pg_script := tl (pg_script s) \<rparr>"

definition run_stmt :: "('j stmt_env \<Rightarrow> (('j, 'x) pg_state_scheme, string, 'r) call) \<Rightarrow>
    (('j, 'x) pg_state_scheme, string, 'r) call" where
  "run_stmt body s =
     (case fault (next_env s) of
        None \<Rightarrow> body (next_env s) (advance s)
      | Some (Refused m) \<Rightarrow> (Inl m, advance s)
      | Some (Ack_lost m) \<Rightarrow> (Inl m, snd (body (next_env s) (advance s))))"

definition database_error :: "('s, string, 'r) call \<Rightarrow> ('s, 'r) io" where
  "database_error c s = (case c s of (Inl m, t) \<Rightarrow> (Inl (DatabaseError m), t) | (Inr x, t) \<Rightarrow> (Inr x, t))"

section \<open>The statements\<close>

definition minute :: int where "minute = 60000000"
definition day :: int where "day = 86400000000"

definition claimable :: "instant \<Rightarrow> 'j event \<Rightarrow> bool" where
  "claimable now r \<longleftrightarrow> status r = Pending \<or> status r = Processing \<and> locked_until r < now"

definition sql_select_next :: "nat \<Rightarrow> 'j stmt_env \<Rightarrow> ('j, 'x) pg_state_scheme \<Rightarrow> event_id list" where
  "sql_select_next limit env s =
     map eid (take limit
       (filter (\<lambda>r. eid r \<notin> set (row_locked env))
         (sort_key locked_until
           (filter (claimable (pg_now s)) (scan env (outbox_events s))))))"

definition claim_row :: "instant \<Rightarrow> 'j event \<Rightarrow> 'j event" where
  "claim_row until r = r\<lparr> status := Processing, locked_until := until \<rparr>"

definition sql_claim :: "nat \<Rightarrow> int \<Rightarrow> 'j stmt_env \<Rightarrow>
    (('j, 'x) pg_state_scheme, string, 'j event list) call" where
  "sql_claim limit mins env s =
     (let ids = sql_select_next limit env s;
          until = pg_now s + minute * mins;
          rows = map (\<lambda>r. if eid r \<in> set ids then claim_row until r else r) (outbox_events s)
      in (Inr (filter (\<lambda>r. eid r \<in> set ids) (scan env rows)), s\<lparr> outbox_events := rows \<rparr>))"

definition sql_update_status :: "event_status \<Rightarrow> event_id list \<Rightarrow> 'j stmt_env \<Rightarrow>
    (('j, 'x) pg_state_scheme, string, unit) call" where
  "sql_update_status st ids env s =
     (Inr (), s\<lparr> outbox_events :=
        map (\<lambda>r. if eid r \<in> set ids then r\<lparr> status := st \<rparr> else r) (outbox_events s) \<rparr>)"

definition expired :: "int \<Rightarrow> instant \<Rightarrow> 'j event \<Rightarrow> bool" where
  "expired days now r \<longleftrightarrow> status r = Sent \<and> created_at r < now - day * days"

definition gc_limit :: nat where "gc_limit = 5000"

definition sql_delete_garbage :: "int \<Rightarrow> 'j stmt_env \<Rightarrow>
    (('j, 'x) pg_state_scheme, string, unit) call" where
  "sql_delete_garbage days env s =
     (let ids = map eid (take gc_limit
            (filter (expired days (pg_now s)) (scan env (outbox_events s))))
      in (Inr (), s\<lparr> outbox_events := filter (\<lambda>r. eid r \<notin> set ids) (outbox_events s) \<rparr>))"

definition dead_of :: "instant \<Rightarrow> 32 word \<Rightarrow> string option \<Rightarrow> 'j event \<Rightarrow> 'j dead_letter" where
  "dead_of now n le d =
     \<lparr> dl_id = eid d, dl_idempotency_token = idempotency_token d, dl_event_type = event_type d,
       dl_payload = payload d, original_status = status d, dl_created_at = created_at d,
       dl_locked_until = locked_until d, dl_failure_count = n, quarantined_at = now,
       dl_last_error = le \<rparr>"

definition sql_quarantine :: "(string \<Rightarrow> string) \<Rightarrow> event_id list \<Rightarrow> 32 word list \<Rightarrow>
    string option list \<Rightarrow> 'j stmt_env \<Rightarrow> (('j, 'x) pg_state_scheme, string, unit) call" where
  "sql_quarantine dup ids counts errs env s =
     (let deleted = filter (\<lambda>r. eid r \<in> set ids) (outbox_events s);
          f = zip ids (zip counts errs);
          joined = concat (map (\<lambda>d.
            map (\<lambda>(i, n, le). dead_of (pg_now s) n le d) (filter (\<lambda>(i, _). eid d = i) f)) deleted);
          table = outbox_dead_letters s @ joined
      in if distinct (map dl_id table)
         then (Inr (), s\<lparr> outbox_events := filter (\<lambda>r. eid r \<notin> set ids) (outbox_events s),
                          outbox_dead_letters := table \<rparr>)
         else (Inl (dup ''outbox_dead_letters_pkey''), s))"

definition sql_insert :: "(string \<Rightarrow> string) \<Rightarrow> 'j event \<Rightarrow> 'j stmt_env \<Rightarrow>
    (('j, 'x) pg_state_scheme, string, unit) call" where
  "sql_insert dup row env s =
     (if eid row \<in> eid ` set (outbox_events s) then (Inl (dup ''outbox_events_pkey''), s)
      else if idempotency_token row \<noteq> None \<and>
        idempotency_token row \<in> idempotency_token ` set (outbox_events s)
      then (Inl (dup ''idx_outbox_idempotency''), s)
      else (Inr (), s\<lparr> outbox_events := outbox_events s @ [row] \<rparr>))"

section \<open>The adapter\<close>

definition with_payload :: "'q payload \<Rightarrow> 'p event \<Rightarrow> 'q event" where
  "with_payload pl r =
     \<lparr> eid = eid r, idempotency_token = idempotency_token r, event_type = event_type r,
       payload = pl, created_at = created_at r, locked_until = locked_until r, status = status r \<rparr>"

definition decode_row :: "('j \<Rightarrow> string + 'p) \<Rightarrow> 'j event \<Rightarrow> string + 'p event" where
  "decode_row from r =
     (case from (as_value (payload r)) of
        Inl m \<Rightarrow> Inl m
      | Inr p \<Rightarrow> Inr (with_payload (Payload_new p) r))"

fun decode_rows :: "('j \<Rightarrow> string + 'p) \<Rightarrow> 'j event list \<Rightarrow> string + 'p event list" where
  "decode_rows from [] = Inr []"
| "decode_rows from (r # rs) =
     (case decode_row from r of
        Inl m \<Rightarrow> Inl m
      | Inr e \<Rightarrow> (case decode_rows from rs of Inl m \<Rightarrow> Inl m | Inr es \<Rightarrow> Inr (e # es)))"

definition pg_fetch_next_to_process :: "('p, 'j) pg_client \<Rightarrow> 'p outbox_config \<Rightarrow> u32 \<Rightarrow>
    (('j, 'x) pg_state_scheme, 'p event list) io" where
  "pg_fetch_next_to_process c cfg limit =
     database_error (and_then
       (run_stmt (sql_claim (unat limit) (sint (lock_timeout_mins cfg))))
       (\<lambda>rows. case decode_rows (from_value c) rows of Inl m \<Rightarrow> throw m | Inr es \<Rightarrow> ret es))"

definition pg_update_status :: "event_id list \<Rightarrow> event_status \<Rightarrow>
    (('j, 'x) pg_state_scheme, unit) io" where
  "pg_update_status ids st = database_error (run_stmt (sql_update_status st ids))"

definition pg_delete_garbage :: "'p outbox_config \<Rightarrow> (('j, 'x) pg_state_scheme, unit) io" where
  "pg_delete_garbage cfg =
     database_error (run_stmt (sql_delete_garbage (sint (retention_days cfg))))"

definition pg_wait_for_notification :: "string \<Rightarrow> (('j, 'x) pg_state_scheme, unit) io" where
  "pg_wait_for_notification channel s =
     (let env = (case listen_script s of [] \<Rightarrow> quiet_listen | e # _ \<Rightarrow> e);
          s1 = s\<lparr> listen_script := tl (listen_script s) \<rparr>;
          recv = (\<lambda>u. case recv_error env of
                    None \<Rightarrow> (Inr (), u)
                  | Some m \<Rightarrow> (Inl (DatabaseError m), u\<lparr> listener := None \<rparr>))
      in case listener s1 of
           Some _ \<Rightarrow> recv s1
         | None \<Rightarrow>
             (case connect_error env of
                Some m \<Rightarrow> (Inl (DatabaseError m), s1)
              | None \<Rightarrow>
                  (case listen_error env of
                     Some m \<Rightarrow> (Inl (DatabaseError m), s1)
                   | None \<Rightarrow> recv (s1\<lparr> listener := Some channel \<rparr>))))"

definition i32_saturating :: "u32 \<Rightarrow> 32 word" where
  "i32_saturating n = (if unat n < 2 ^ 31 then n else 2147483647)"

definition pg_quarantine_events :: "('p, 'j) pg_client \<Rightarrow> dlq_entry list \<Rightarrow>
    (('j, 'x) pg_state_scheme, unit) io" where
  "pg_quarantine_events c entries =
     (if entries = [] then ret ()
      else database_error (run_stmt (sql_quarantine (duplicate_key_text c)
        (map dlq_id entries)
        (map (\<lambda>e. i32_saturating (failure_count e)) entries)
        (map last_error entries))))"

definition PostgresOutbox :: "('p, 'j) pg_client \<Rightarrow> 'p outbox_config \<Rightarrow>
    (('j, 'x) pg_state_scheme, 'p) outbox_storage" where
  "PostgresOutbox c cfg =
     \<lparr> fetch_next_to_process = pg_fetch_next_to_process c cfg,
       update_status = pg_update_status,
       delete_garbage = pg_delete_garbage cfg,
       wait_for_notification = pg_wait_for_notification,
       quarantine_events = pg_quarantine_events c \<rparr>"

definition pg_insert_event :: "('p, 'j) pg_client \<Rightarrow> 'p event \<Rightarrow>
    (('j, 'x) pg_state_scheme, unit) io" where
  "pg_insert_event c event s =
     (case to_value c (as_value (payload event)) of
        Inl m \<Rightarrow> (Inl (DatabaseError m), s)
      | Inr j \<Rightarrow>
          database_error (run_stmt (sql_insert (duplicate_key_text c)
            (with_payload (Payload j) event))) s)"

definition PostgresWriter :: "('p, 'j) pg_client \<Rightarrow> (('j, 'x) pg_state_scheme, 'p) outbox_writer" where
  "PostgresWriter c = \<lparr> insert_event = pg_insert_event c \<rparr>"

section \<open>The tables as maps\<close>

definition row_status :: "'j event list \<Rightarrow> event_id \<Rightarrow> event_status option" where
  "row_status xs = map_of (map (\<lambda>r. (eid r, status r)) xs)"

definition pg_status :: "('j, 'x) pg_state_scheme \<Rightarrow> event_id \<Rightarrow> event_status option" where
  "pg_status s = row_status (outbox_events s)"

definition pg_dead :: "('j, 'x) pg_state_scheme \<Rightarrow> event_id set" where
  "pg_dead s = dl_id ` set (outbox_dead_letters s)"

definition fair_scan :: "'j stmt_env \<Rightarrow> bool" where
  "fair_scan env \<longleftrightarrow> (\<forall>xs. mset (scan env xs) = mset xs)"

definition pg_ok :: "('j, 'x) pg_state_scheme \<Rightarrow> bool" where
  "pg_ok s \<longleftrightarrow> distinct (map eid (outbox_events s)) \<and> distinct (map dl_id (outbox_dead_letters s)) \<and>
     (\<forall>env \<in> set (pg_script s). fair_scan env)"

lemma quiet_fair [simp]: "fair_scan quiet_env"
  by (simp add: fair_scan_def quiet_env_def)

lemma pg_ok_next_fair: "pg_ok s \<Longrightarrow> fair_scan (next_env s)"
  by (cases "pg_script s") (auto simp: pg_ok_def next_env_def)

lemma fair_scan_set: "fair_scan env \<Longrightarrow> set (scan env xs) = set xs"
  by (metis fair_scan_def set_mset_mset)

lemma advance_simps [simp]:
  "outbox_events (advance s) = outbox_events s"
  "outbox_dead_letters (advance s) = outbox_dead_letters s"
  "listener (advance s) = listener s"
  "pg_script (advance s) = tl (pg_script s)"
  by (simp_all add: advance_def)

lemma pg_ok_advance: "pg_ok s \<Longrightarrow> pg_ok (advance s)"
  by (cases "pg_script s") (auto simp: pg_ok_def)

lemma pg_view_advance [simp]: "pg_status (advance s) = pg_status s" "pg_dead (advance s) = pg_dead s"
  by (simp_all add: pg_status_def pg_dead_def)

lemma run_stmt_cases:
  assumes "run_stmt body s = (r, t)"
  obtains (ran) "body (next_env s) (advance s) = (r, t)"
  | (refused) m where "r = Inl m" and "t = advance s"
  | (lost) m q where "r = Inl m" and "body (next_env s) (advance s) = (q, t)"
  using assms
  by (cases "body (next_env s) (advance s)")
    (auto simp: run_stmt_def split: option.splits pg_fault.splits)

lemma database_error_cases:
  assumes "database_error c s = (r, t)"
  obtains (ok) x where "r = Inr x" and "c s = (Inr x, t)"
  | (err) m where "r = Inl (DatabaseError m)" and "c s = (Inl m, t)"
  using assms by (auto simp: database_error_def split: prod.splits sum.splits)

lemma row_status_None: "row_status xs i = None \<longleftrightarrow> i \<notin> eid ` set xs"
  by (auto simp: row_status_def map_of_eq_None_iff image_image comp_def)

lemma row_status_Some:
  "distinct (map eid xs) \<Longrightarrow> r \<in> set xs \<Longrightarrow> row_status xs (eid r) = Some (status r)"
  unfolding row_status_def by (rule map_of_key_eq)

lemma row_status_update:
  assumes "\<And>r. eid (g r) = eid r" and "\<And>r. status (g r) = x"
  shows "row_status (map (\<lambda>r. if eid r \<in> S then g r else r) xs) i =
    (if i \<in> S then map_option (\<lambda>_. x) (row_status xs i) else row_status xs i)"
  by (induction xs) (auto simp: row_status_def assms)

lemma row_status_delete:
  "row_status (filter (\<lambda>r. eid r \<notin> S) xs) i = (if i \<in> S then None else row_status xs i)"
  by (induction xs) (auto simp: row_status_def)

lemma map_eid_update:
  "(\<And>r. eid (g r) = eid r) \<Longrightarrow> map eid (map (\<lambda>r. if eid r \<in> S then g r else r) xs) = map eid xs"
  by (induction xs) auto

section \<open>What the claim statement returns\<close>

lemma select_next_claimable:
  assumes "fair_scan env"
  shows "set (sql_select_next limit env s) \<subseteq>
    eid ` {r \<in> set (outbox_events s). claimable (pg_now s) r \<and> eid r \<notin> set (row_locked env)}"
  using fair_scan_set[OF assms] by (fastforce simp: sql_select_next_def dest: in_set_takeD)

lemma select_next_length: "length (sql_select_next limit env s) \<le> limit"
  by (simp add: sql_select_next_def)

lemma claim_row_simps [simp]:
  "eid (claim_row u r) = eid r" "status (claim_row u r) = Processing"
  "locked_until (claim_row u r) = u" "idempotency_token (claim_row u r) = idempotency_token r"
  "event_type (claim_row u r) = event_type r" "payload (claim_row u r) = payload r"
  "created_at (claim_row u r) = created_at r"
  by (simp_all add: claim_row_def)

definition eligible :: "'j stmt_env \<Rightarrow> ('j, 'x) pg_state_scheme \<Rightarrow> 'j event \<Rightarrow> bool" where
  "eligible env s r \<longleftrightarrow> claimable (pg_now s) r \<and> eid r \<notin> set (row_locked env)"

definition candidates :: "'j stmt_env \<Rightarrow> ('j, 'x) pg_state_scheme \<Rightarrow> 'j event list" where
  "candidates env s = filter (\<lambda>r. eid r \<notin> set (row_locked env))
     (sort_key locked_until (filter (claimable (pg_now s)) (scan env (outbox_events s))))"

lemma select_next_candidates: "sql_select_next limit env s = map eid (take limit (candidates env s))"
  by (simp add: sql_select_next_def candidates_def)

lemma candidates_mset:
  "fair_scan env \<Longrightarrow> mset (candidates env s) = mset (filter (eligible env s) (outbox_events s))"
  by (simp add: candidates_def eligible_def fair_scan_def filter_filter_mset conj_commute)

lemma set_candidates:
  "fair_scan env \<Longrightarrow> set (candidates env s) = {r \<in> set (outbox_events s). eligible env s r}"
  using candidates_mset[of env s] by (metis set_filter set_mset_mset)

lemma candidates_sorted: "sorted (map locked_until (candidates env s))"
  by (simp add: candidates_def sorted_filter)

text \<open>As many rows as the limit and the eligible rows allow, the oldest locks first.\<close>

lemma select_next_length_eq:
  "fair_scan env \<Longrightarrow>
     length (sql_select_next limit env s) = min limit (length (filter (eligible env s) (outbox_events s)))"
  using candidates_mset[of env s] by (metis length_map length_take min.commute select_next_candidates size_mset)

lemma select_next_oldest:
  assumes fair: "fair_scan env" and dist: "distinct (map eid (outbox_events s))"
    and r: "r \<in> set (outbox_events s)" "eid r \<in> set (sql_select_next limit env s)"
    and r': "r' \<in> set (outbox_events s)" "eligible env s r'" "eid r' \<notin> set (sql_select_next limit env s)"
  shows "locked_until r \<le> locked_until r'"
proof -
  let ?L = "candidates env s"
  from r(2) obtain x where x: "x \<in> set (take limit ?L)" "eid x = eid r"
    by (auto simp: select_next_candidates)
  then have "x \<in> set (outbox_events s)" using set_candidates[OF fair] by (blast dest: in_set_takeD)
  with key_unique[OF dist _ r(1) x(2)] x(1) have "r \<in> set (take limit ?L)" by simp
  moreover have "r' \<in> set (drop limit ?L)"
  proof -
    have "r' \<in> set ?L" using r'(1,2) set_candidates[OF fair] by blast
    moreover have "r' \<notin> set (take limit ?L)" using r'(3) by (auto simp: select_next_candidates)
    ultimately show ?thesis by (metis Un_iff append_take_drop_id set_append)
  qed
  ultimately show ?thesis by (rule sorted_take_drop_le[OF candidates_sorted])
qed

text \<open>
  The rows of a successful claim are exactly the selected ones, each under its new lock; the table
  keeps every other row.
\<close>

lemma sql_claim_result:
  fixes s :: "('j, 'x) pg_state_scheme"
  assumes fair: "fair_scan env" and dist: "distinct (map eid (outbox_events s))"
    and run: "sql_claim limit mins env s = (r, t)"
  obtains rows ids where "r = Inr rows" and "ids = sql_select_next limit env s"
    and "set rows = claim_row (pg_now s + minute * mins) ` {x \<in> set (outbox_events s). eid x \<in> set ids}"
    and "distinct (map eid rows)" and "length rows \<le> limit" and "eid ` set rows = set ids"
    and "t = s\<lparr> outbox_events := map (\<lambda>r. if eid r \<in> set ids
            then claim_row (pg_now s + minute * mins) r else r) (outbox_events s) \<rparr>"
proof -
  define ids where "ids = sql_select_next limit env s"
  define c where "c = (claim_row (pg_now s + minute * mins) :: 'j event \<Rightarrow> 'j event)"
  define tab where "tab = map (\<lambda>r. if eid r \<in> set ids then c r else r) (outbox_events s)"
  define rows where "rows = filter (\<lambda>r. eid r \<in> set ids) (scan env tab)"
  have c_eid: "eid (c x) = eid x" for x by (simp add: c_def)
  have tab_eid: "map eid tab = map eid (outbox_events s)"
    unfolding tab_def by (rule map_eid_update) (rule c_eid)
  have perm: "mset (scan env tab) = mset tab" using fair by (simp add: fair_scan_def)
  have rows_set: "set rows = c ` {x \<in> set (outbox_events s). eid x \<in> set ids}"
    using fair_scan_set[OF fair, of tab] by (auto simp: rows_def tab_def c_eid)
  have rows_dist: "distinct (map eid rows)"
    using distinct_map_mset_eq[OF perm, of eid] dist tab_eid
    by (simp add: rows_def distinct_map_filter)
  have ids_sub: "set ids \<subseteq> eid ` set (outbox_events s)"
    using select_next_claimable[OF fair] unfolding ids_def by blast
  have rows_ids: "eid ` set rows = set ids"
    using ids_sub by (force simp: rows_set c_eid image_iff)
  have "length rows = card (set (map eid rows))" using rows_dist distinct_card by fastforce
  also have "\<dots> \<le> length ids" using rows_ids card_length[of ids] by simp
  also have "\<dots> \<le> limit" unfolding ids_def by (rule select_next_length)
  finally have rows_len: "length rows \<le> limit" .
  have "r = Inr rows" "t = s\<lparr> outbox_events := tab \<rparr>"
    using run unfolding rows_def tab_def ids_def c_def by (auto simp: sql_claim_def Let_def)
  with that[OF _ ids_def] rows_set rows_dist rows_len rows_ids show thesis
    by (simp add: tab_def c_def)
qed

section \<open>Every statement keeps the tables well formed\<close>

definition pg_same :: "('j, 'x) pg_state_scheme \<Rightarrow> ('j, 'x) pg_state_scheme \<Rightarrow> bool" where
  "pg_same s t \<longleftrightarrow> pg_ok t \<and> pg_status t = pg_status s \<and> pg_dead t = pg_dead s"

lemma pg_same_advance: "pg_ok s \<Longrightarrow> pg_same s (advance s)"
  by (simp add: pg_same_def pg_ok_advance)

lemma decode_rows_keys:
  assumes "decode_rows from rows = Inr evs"
  shows "map eid evs = map eid rows" and "map status evs = map status rows"
    and "map locked_until evs = map locked_until rows"
  using assms
  by (induction rows arbitrary: evs)
    (auto simp: decode_row_def with_payload_def split: sum.splits)

text \<open>The claim, on the tables as maps.\<close>

lemma sql_claim_view:
  fixes s :: "('j, 'x) pg_state_scheme"
  assumes ok: "pg_ok s" and fair: "fair_scan env" and run: "sql_claim limit mins env s = (r, t)"
  obtains rows where "r = Inr rows" and "pg_ok t" and "pg_dead t = pg_dead s"
    and "distinct (map eid rows)" and "length rows \<le> limit"
    and "\<forall>x \<in> set rows. status x = Processing \<and>
           pg_status s (eid x) \<in> {Some Pending, Some Processing}"
    and "pg_status t = (\<lambda>i. if i \<in> eid ` set rows then Some Processing else pg_status s i)"
proof -
  define c where "c = (claim_row (pg_now s + minute * mins) :: 'j event \<Rightarrow> 'j event)"
  from ok have dist: "distinct (map eid (outbox_events s))" by (simp add: pg_ok_def)
  from sql_claim_result[OF fair dist run] obtain rows ids where
    r: "r = Inr rows" and ids: "ids = sql_select_next limit env s"
    and rows: "set rows = c ` {x \<in> set (outbox_events s). eid x \<in> set ids}"
    and rd: "distinct (map eid rows)" and rl: "length rows \<le> limit" and ri: "eid ` set rows = set ids"
    and t: "t = s\<lparr> outbox_events := map (\<lambda>r. if eid r \<in> set ids then c r else r) (outbox_events s) \<rparr>"
    by (rule sql_claim_result[OF fair dist run, folded c_def])
  have c: "eid (c x) = eid x" "status (c x) = Processing" for x by (simp_all add: c_def)
  have stat: "pg_status s (eid x) \<in> {Some Pending, Some Processing}" if "x \<in> set rows" for x
  proof -
    from that ri have "eid x \<in> set ids" by blast
    with select_next_claimable[OF fair, of limit s] ids obtain y where
      "y \<in> set (outbox_events s)" "claimable (pg_now s) y" "eid x = eid y" by auto
    then show ?thesis
      using row_status_Some[OF dist] by (auto simp: pg_status_def claimable_def)
  qed
  have view: "pg_status t i = (if i \<in> eid ` set rows then Some Processing else pg_status s i)" for i
  proof (cases "i \<in> eid ` set rows")
    case True
    then obtain x where "x \<in> set rows" "i = eid x" by blast
    with stat have "pg_status s i \<noteq> None" by fastforce
    then show ?thesis
      using True ri row_status_update[of c Processing "set ids" "outbox_events s" i] c
      by (auto simp: t pg_status_def)
  next
    case False
    then show ?thesis
      using ri row_status_update[of c Processing "set ids" "outbox_events s" i] c
      by (simp add: t pg_status_def)
  qed
  have "pg_ok t" using ok map_eid_update[of c "set ids" "outbox_events s"] c(1)
    by (simp add: pg_ok_def t del: map_map)
  moreover have "pg_dead t = pg_dead s" by (simp add: t pg_dead_def)
  moreover have "\<forall>x \<in> set rows. status x = Processing" using rows c by auto
  ultimately show thesis using that[OF r] rd rl stat view by blast
qed

lemma sql_update_view:
  assumes "pg_ok s" and "sql_update_status x ids env s = (r, t)"
  shows "pg_ok t \<and> pg_dead t = pg_dead s \<and>
    pg_status t = (\<lambda>i. if i \<in> set ids then map_option (\<lambda>_. x) (pg_status s i) else pg_status s i)"
proof -
  let ?g = "\<lambda>r. r\<lparr> status := x \<rparr>"
  have t: "t = s\<lparr> outbox_events := map (\<lambda>r. if eid r \<in> set ids then ?g r else r) (outbox_events s) \<rparr>"
    using assms(2) by (simp add: sql_update_status_def)
  have "pg_status t i = (if i \<in> set ids then map_option (\<lambda>_. x) (pg_status s i) else pg_status s i)" for i
    using row_status_update[of ?g x "set ids" "outbox_events s" i] by (simp add: t pg_status_def)
  moreover have "pg_ok t"
    using assms(1) map_eid_update[of ?g "set ids" "outbox_events s"]
    by (simp add: t pg_ok_def del: map_map)
  ultimately show ?thesis by (auto simp: t pg_dead_def)
qed

lemma sql_delete_garbage_view:
  assumes "pg_ok s" and "fair_scan env" and "sql_delete_garbage days env s = (r, t)"
  shows "pg_ok t \<and> pg_dead t = pg_dead s \<and>
    (\<forall>i. pg_status t i = pg_status s i \<or> pg_status s i = Some Sent \<and> pg_status t i = None)"
proof -
  define ids where "ids = map eid (take gc_limit
    (filter (expired days (pg_now s)) (scan env (outbox_events s))))"
  have t: "t = s\<lparr> outbox_events := filter (\<lambda>r. eid r \<notin> set ids) (outbox_events s) \<rparr>"
    using assms(3) by (simp add: sql_delete_garbage_def Let_def ids_def)
  have sent: "pg_status s i = Some Sent" if "i \<in> set ids" for i
  proof -
    from that obtain y where "y \<in> set (outbox_events s)" "status y = Sent" "i = eid y"
      using fair_scan_set[OF assms(2)] by (auto simp: ids_def expired_def dest!: in_set_takeD)
    then show ?thesis
      using assms(1) row_status_Some by (fastforce simp: pg_status_def pg_ok_def)
  qed
  have "pg_status t i = (if i \<in> set ids then None else pg_status s i)" for i
    by (simp add: t pg_status_def row_status_delete)
  moreover have "pg_ok t" using assms(1) by (auto simp: t pg_ok_def distinct_map_filter)
  ultimately show ?thesis using sent by (auto simp: t pg_dead_def)
qed

lemma dl_id_dead_of [simp]: "dl_id (dead_of now n le d) = eid d"
  by (simp add: dead_of_def)

lemma quarantine_joined_ids:
  assumes "length counts = length ids" and "length errs = length ids"
  shows "dl_id ` set (concat (map (\<lambda>d. map (\<lambda>(i, n, le). dead_of now n le d)
      (filter (\<lambda>(i, _). eid d = i) (zip ids (zip counts errs))))
      (filter (\<lambda>r. eid r \<in> set ids) rows))) = set ids \<inter> eid ` set rows"
    (is "?L = ?R")
proof
  show "?L \<subseteq> ?R" by (auto split: prod.splits)
  show "?R \<subseteq> ?L"
  proof
    fix i assume "i \<in> ?R"
    then obtain d where d: "d \<in> set rows" "eid d = i" and i: "i \<in> set ids" by auto
    from i assms have "i \<in> set (map fst (zip ids (zip counts errs)))" by simp
    then obtain n le where "(i, n, le) \<in> set (zip ids (zip counts errs))" by auto
    with d i show "i \<in> ?L" by (auto simp: image_iff intro!: bexI[of _ d] bexI[of _ "(i, n, le)"])
  qed
qed

lemma sql_quarantine_view:
  assumes ok: "pg_ok s" and len: "length counts = length ids" "length errs = length ids"
    and run: "sql_quarantine dup ids counts errs env s = (r, t)"
  shows "pg_ok t \<and>
    (r = Inr () \<and>
       pg_status t = (\<lambda>i. if i \<in> set ids then None else pg_status s i) \<and>
       pg_dead t = pg_dead s \<union> {i \<in> set ids. pg_status s i \<noteq> None} \<or>
     (\<exists>m. r = Inl m) \<and> t = s)"
proof -
  define joined where "joined = concat (map (\<lambda>d.
    map (\<lambda>(i, n, le). dead_of (pg_now s) n le d)
      (filter (\<lambda>(i, _). eid d = i) (zip ids (zip counts errs))))
    (filter (\<lambda>r. eid r \<in> set ids) (outbox_events s)))"
  have jids: "dl_id ` set joined = set ids \<inter> eid ` set (outbox_events s)"
    unfolding joined_def by (rule quarantine_joined_ids[OF len])
  have "(r, t) = (if distinct (map dl_id (outbox_dead_letters s @ joined))
      then (Inr (), s\<lparr> outbox_events := filter (\<lambda>r. eid r \<notin> set ids) (outbox_events s),
        outbox_dead_letters := outbox_dead_letters s @ joined \<rparr>)
      else (Inl (dup ''outbox_dead_letters_pkey''), s))"
    unfolding run[symmetric] sql_quarantine_def Let_def joined_def ..
  note stmt = this
  show ?thesis
  proof (cases "distinct (map dl_id (outbox_dead_letters s @ joined))")
    case True
    then have r: "r = Inr ()" and t: "t = s\<lparr> outbox_events :=
        filter (\<lambda>r. eid r \<notin> set ids) (outbox_events s),
        outbox_dead_letters := outbox_dead_letters s @ joined \<rparr>"
      using stmt by (simp_all del: map_append)
    have "pg_ok t" using ok True by (auto simp: t pg_ok_def distinct_map_filter)
    moreover have "pg_status t = (\<lambda>i. if i \<in> set ids then None else pg_status s i)"
      by (rule ext) (simp add: t pg_status_def row_status_delete)
    moreover have "pg_dead t = pg_dead s \<union> {i \<in> set ids. pg_status s i \<noteq> None}"
      using jids by (auto simp: t pg_dead_def image_Un pg_status_def row_status_None simp del: not_None_eq)
    ultimately show ?thesis using r by blast
  next
    case False
    then have "r = Inl (dup ''outbox_dead_letters_pkey'')" "t = s"
      using stmt by (simp_all del: map_append)
    with ok show ?thesis by blast
  qed
qed

section \<open>The adapter keeps the storage contract\<close>

lemma pg_fetch_cases:
  assumes ok: "pg_ok s" and run: "pg_fetch_next_to_process c cfg limit s = (r, t)"
  obtains (refused) m where "r = Inl (DatabaseError m)" and "t = advance s"
  | (claimed) rows where "pg_ok t" and "pg_dead t = pg_dead s"
    and "distinct (map eid rows)" and "length rows \<le> unat limit"
    and "\<forall>x \<in> set rows. status x = Processing \<and>
           pg_status s (eid x) \<in> {Some Pending, Some Processing}"
    and "pg_status t = (\<lambda>i. if i \<in> eid ` set rows then Some Processing else pg_status s i)"
    and "(\<exists>m. r = Inl (DatabaseError m)) \<or> (\<exists>evs. r = Inr evs \<and> decode_rows (from_value c) rows = Inr evs)"
proof -
  let ?body = "sql_claim (unat limit) (sint (lock_timeout_mins cfg))"
  obtain q u where q: "?body (next_env s) (advance s) = (q, u)" by fastforce
  obtain rows where
    rows: "q = Inr rows" "pg_ok u" "pg_dead u = pg_dead s" "distinct (map eid rows)"
      "length rows \<le> unat limit"
      "\<forall>x \<in> set rows. status x = Processing \<and>
           pg_status s (eid x) \<in> {Some Pending, Some Processing}"
      "pg_status u = (\<lambda>i. if i \<in> eid ` set rows then Some Processing else pg_status s i)"
    by (rule sql_claim_view[OF pg_ok_advance[OF ok] pg_ok_next_fair[OF ok] q, unfolded pg_view_advance])
  show thesis
  proof (cases "fault (next_env s)")
    case None
    with run q rows(1) have "t = u" and "(\<exists>m. r = Inl (DatabaseError m)) \<or>
        (\<exists>evs. r = Inr evs \<and> decode_rows (from_value c) rows = Inr evs)"
      by (auto simp: pg_fetch_next_to_process_def database_error_def and_then_def run_stmt_def
          split: sum.splits)
    with rows claimed show thesis by blast
  next
    case (Some f)
    show thesis
    proof (cases f)
      case (Refused m)
      with Some run refused show thesis
        by (auto simp add: pg_fetch_next_to_process_def database_error_def and_then_def run_stmt_def)
    next
      case (Ack_lost m)
      with Some run q have "t = u" "r = Inl (DatabaseError m)"
        by (simp_all add: pg_fetch_next_to_process_def database_error_def and_then_def run_stmt_def)
      with rows claimed show thesis by blast
    qed
  qed
qed

lemma pg_fetch_law_ok:
  assumes "pg_ok s" and "pg_fetch_next_to_process c cfg l s = (Inr evs, t)"
  shows "pg_ok t \<and> pg_dead t = pg_dead s \<and> length evs \<le> unat l \<and> distinct (map eid evs) \<and>
    (\<forall>e \<in> set evs. status e = Processing \<and>
       pg_status s (eid e) \<in> {Some Pending, Some Processing}) \<and>
    pg_status t = (\<lambda>i. if i \<in> eid ` set evs then Some Processing else pg_status s i)"
  using assms
proof (cases rule: pg_fetch_cases)
  case (claimed rows)
  then have "decode_rows (from_value c) rows = Inr evs" by auto
  note keys = decode_rows_keys[OF this]
  have ids: "eid ` set evs = eid ` set rows" using keys(1) by (metis list.set_map)
  have "\<forall>x \<in> set rows. status x = Processing" using claimed by blast
  then have "set (map status evs) \<subseteq> {Processing}" unfolding keys(2) by auto
  moreover have "length evs = length rows" using keys(1) by (metis length_map)
  moreover have "pg_status s (eid e) \<in> {Some Pending, Some Processing}" if "e \<in> set evs" for e
    using that ids claimed(5) by (metis image_iff)
  ultimately show ?thesis using claimed keys(1) ids by auto
qed simp

lemma pg_fetch_law_err:
  assumes "pg_ok s" and "pg_fetch_next_to_process c cfg l s = (Inl e, t)"
  shows "pg_ok t \<and> pg_dead t = pg_dead s \<and>
    (\<forall>i. pg_status t i = pg_status s i \<or>
      pg_status s i \<in> {Some Pending, Some Processing} \<and> pg_status t i = Some Processing)"
  using assms
proof (cases rule: pg_fetch_cases)
  case (refused m)
  then show ?thesis by (simp add: pg_ok_advance assms(1))
next
  case (claimed rows)
  have "pg_status s i \<in> {Some Pending, Some Processing}" if "i \<in> eid ` set rows" for i
    using that claimed(5) by blast
  then show ?thesis using claimed(1,2,6) by simp
qed

lemma pg_unit_stmt_cases:
  assumes "database_error (run_stmt body) s = (r, t)"
  obtains (ran) q where "body (next_env s) (advance s) = (q, t)" and "\<And>u. r = Inr u \<Longrightarrow> q = Inr u"
  | (refused) m where "r = Inl (DatabaseError m)" and "t = advance s"
  using assms by (auto elim!: database_error_cases run_stmt_cases)

lemma pg_update_law:
  assumes ok: "pg_ok s" and run: "pg_update_status ids x s = (r, t)"
  defines "after \<equiv> \<lambda>i. if i \<in> set ids then map_option (\<lambda>_. x) (pg_status s i) else pg_status s i"
  shows "pg_ok t \<and> pg_dead t = pg_dead s \<and>
    (pg_status t = after \<or> (\<exists>e. r = Inl e) \<and> pg_status t = pg_status s)"
  using run[unfolded pg_update_status_def]
proof (cases rule: pg_unit_stmt_cases)
  case (ran q)
  from sql_update_view[OF pg_ok_advance[OF ok] ran(1)] show ?thesis by (simp add: after_def cong: if_cong)
next
  case (refused m)
  then show ?thesis by (simp add: pg_ok_advance ok)
qed

lemma pg_garbage_law:
  assumes ok: "pg_ok s" and run: "pg_delete_garbage cfg s = (r, t)"
  shows "pg_ok t \<and> pg_dead t = pg_dead s \<and>
    (\<forall>i. pg_status t i = pg_status s i \<or> pg_status s i = Some Sent \<and> pg_status t i = None)"
  using run[unfolded pg_delete_garbage_def]
proof (cases rule: pg_unit_stmt_cases)
  case (ran q)
  from sql_delete_garbage_view[OF pg_ok_advance[OF ok] pg_ok_next_fair[OF ok] ran(1)]
  show ?thesis by simp
next
  case (refused m)
  then show ?thesis by (simp add: pg_ok_advance ok)
qed

lemma pg_quarantine_law:
  assumes ok: "pg_ok s" and run: "pg_quarantine_events c es s = (r, t)"
  shows "pg_ok t \<and>
    (pg_status t = (\<lambda>i. if i \<in> dlq_id ` set es then None else pg_status s i) \<and>
       pg_dead t = pg_dead s \<union> {i \<in> dlq_id ` set es. pg_status s i \<noteq> None} \<or>
     (\<exists>e. r = Inl e) \<and> pg_status t = pg_status s \<and> pg_dead t = pg_dead s)"
proof (cases "es = []")
  case True
  with assms show ?thesis by (simp add: pg_quarantine_events_def)
next
  case False
  with run have "database_error (run_stmt (sql_quarantine (duplicate_key_text c) (map dlq_id es)
    (map (\<lambda>e. i32_saturating (failure_count e)) es) (map last_error es))) s = (r, t)"
    by (simp add: pg_quarantine_events_def)
  then show ?thesis
  proof (cases rule: pg_unit_stmt_cases)
    case (ran q)
    from sql_quarantine_view[OF pg_ok_advance[OF ok] _ _ ran(1)] ran(2)
    show ?thesis by (cases r) auto
  next
    case (refused m)
    then show ?thesis by (simp add: pg_ok_advance ok)
  qed
qed

lemma PostgresOutbox_simps [simp]:
  "fetch_next_to_process (PostgresOutbox c cfg) = pg_fetch_next_to_process c cfg"
  "update_status (PostgresOutbox c cfg) = pg_update_status"
  "delete_garbage (PostgresOutbox c cfg) = pg_delete_garbage cfg"
  "wait_for_notification (PostgresOutbox c cfg) = pg_wait_for_notification"
  "quarantine_events (PostgresOutbox c cfg) = pg_quarantine_events c"
  by (simp_all add: PostgresOutbox_def)

interpretation pg: storage_contract "PostgresOutbox c cfg" pg_status pg_dead pg_ok
  for c :: "('p, 'j) pg_client" and cfg :: "'p outbox_config"
proof (unfold_locales, unfold PostgresOutbox_simps, goal_cases)
  case 1 then show ?case by (rule pg_fetch_law_ok)
next
  case 2 then show ?case by (rule pg_fetch_law_err)
next
  case 3 then show ?case by (blast dest: pg_update_law)
next
  case 4 then show ?case by (blast dest: pg_update_law)
next
  case 5 then show ?case by (rule pg_garbage_law)
next
  case 6 then show ?case by (blast dest: pg_quarantine_law)
next
  case 7 then show ?case by (blast dest: pg_quarantine_law)
qed

section \<open>The writer\<close>

lemma PostgresWriter_simps [simp]: "insert_event (PostgresWriter c) = pg_insert_event c"
  by (simp add: PostgresWriter_def)

lemma row_status_append:
  "eid r \<notin> eid ` set xs \<Longrightarrow> row_status (xs @ [r]) = (row_status xs)(eid r \<mapsto> status r)"
  by (induction xs) (simp_all add: row_status_def fun_upd_twist)

lemma sql_insert_view:
  assumes "pg_ok s" and "sql_insert dup row env s = (r, t)"
  shows "pg_ok t \<and> pg_dead t = pg_dead s \<and>
    ((\<exists>m. r = Inl m) \<and> pg_status t = pg_status s \<or>
     pg_status s (eid row) = None \<and> pg_status t = (pg_status s)(eid row \<mapsto> status row))"
  using assms
  by (auto simp: sql_insert_def pg_ok_def pg_dead_def pg_status_def row_status_append row_status_None
      split: if_splits)

lemma pg_insert_law:
  assumes ok: "pg_ok s" and run: "pg_insert_event c e s = (r, t)"
  shows "pg_ok t \<and> pg_dead t = pg_dead s \<and>
    ((\<exists>x. r = Inl x) \<and> pg_status t = pg_status s \<or>
     pg_status s (eid e) = None \<and> pg_status t = (pg_status s)(eid e \<mapsto> status e))"
proof (cases "to_value c (as_value (payload e))")
  case (Inl m)
  then show ?thesis using ok run by (auto simp: pg_insert_event_def)
next
  case (Inr j)
  with run have "database_error (run_stmt (sql_insert (duplicate_key_text c)
      (with_payload (Payload j) e))) s = (r, t)" by (simp add: pg_insert_event_def)
  then show ?thesis
  proof (cases rule: pg_unit_stmt_cases)
    case (ran q)
    from sql_insert_view[OF pg_ok_advance[OF ok] ran(1)] ran(2) show ?thesis
      by (cases r) (auto simp: with_payload_def)
  next
    case (refused m)
    then show ?thesis by (simp add: pg_ok_advance ok)
  qed
qed

lemma unit_stmt_ok:
  assumes "database_error (run_stmt body) s = (Inr u, t)"
  shows "body (next_env s) (advance s) = (Inr u, t)"
  using assms by (auto elim!: database_error_cases run_stmt_cases)

lemma insert_ok:
  fixes s :: "('j, 'x) pg_state_scheme"
  assumes "pg_insert_event c e s = (Inr u, t)"
  obtains j where "to_value c (as_value (payload e)) = Inr j"
    and "t = (advance s)\<lparr> outbox_events := outbox_events s @ [with_payload (Payload j) e] \<rparr>"
    and "eid e \<notin> eid ` set (outbox_events s)"
    and "idempotency_token e = None \<or>
      idempotency_token e \<notin> idempotency_token ` set (outbox_events s)"
proof (cases "to_value c (as_value (payload e))")
  case (Inl m)
  with assms show thesis by (simp add: pg_insert_event_def)
next
  case (Inr j)
  with assms have "sql_insert (duplicate_key_text c) (with_payload (Payload j) e) (next_env s) (advance s) =
      (Inr u, t)" by (intro unit_stmt_ok) (simp add: pg_insert_event_def)
  then show thesis
    using that[OF Inr] by (auto simp: sql_insert_def with_payload_def split: if_splits)
qed

section \<open>How much a drain can still claim\<close>

text \<open>
  \<open>horizon\<close> is the time at the end of the scripted statements. While the lock of a claim outlives the
  horizon (\<open>pg_calm\<close>), a claimed row cannot be claimed again before the script ends, so the rows
  claimable at the horizon (\<open>pg_backlog\<close>) only shrink.
\<close>

definition horizon :: "('j, 'x) pg_state_scheme \<Rightarrow> instant" where
  "horizon s = pg_now s + sum_list (map (\<lambda>env. int (delay env)) (pg_script s))"

definition pg_calm :: "'p outbox_config \<Rightarrow> ('j, 'x) pg_state_scheme \<Rightarrow> bool" where
  "pg_calm cfg s \<longleftrightarrow> horizon s \<le> pg_now s + minute * sint (lock_timeout_mins cfg)"

definition pg_backlog :: "('j, 'x) pg_state_scheme \<Rightarrow> nat" where
  "pg_backlog s = length (filter (claimable (horizon s)) (outbox_events s))"

lemma delays_nonneg: "0 \<le> sum_list (map (\<lambda>env. int (delay env)) xs)"
  by (induction xs) auto

lemma horizon_advance [simp]: "horizon (advance s) = horizon s"
  by (cases "pg_script s") (auto simp: horizon_def advance_def next_env_def quiet_env_def)

lemma now_advance: "pg_now s \<le> pg_now (advance s)" "pg_now (advance s) \<le> horizon s"
proof -
  show "pg_now s \<le> pg_now (advance s)" by (simp add: advance_def)
  have "pg_now (advance s) \<le> horizon (advance s)" by (simp add: horizon_def delays_nonneg)
  then show "pg_now (advance s) \<le> horizon s" by simp
qed

lemma pg_calm_advance: "pg_calm cfg s \<Longrightarrow> pg_calm cfg (advance s)"
  using now_advance(1)[of s] by (simp add: pg_calm_def)

lemma claimable_mono: "claimable a r \<Longrightarrow> a \<le> b \<Longrightarrow> claimable b r"
  by (auto simp: claimable_def)

lemma horizon_events [simp]: "horizon (s\<lparr> outbox_events := xs \<rparr>) = horizon s"
  by (simp add: horizon_def)

lemma filter_in_keys_length:
  assumes "distinct (map f xs)" and "distinct (map f ys)" and "f ` set ys = K" and "K \<subseteq> f ` set xs"
  shows "length (filter (\<lambda>x. f x \<in> K) xs) = length ys"
proof -
  have "distinct (map f (filter (\<lambda>x. f x \<in> K) xs))" using assms(1) by (rule distinct_map_filter)
  then have "length (filter (\<lambda>x. f x \<in> K) xs) = card (f ` set (filter (\<lambda>x. f x \<in> K) xs))"
    using distinct_card by fastforce
  also have "f ` set (filter (\<lambda>x. f x \<in> K) xs) = K" using assms(4) by fastforce
  also have "card K = length ys" using assms(2) distinct_card[of "map f ys"] by (simp flip: assms(3))
  finally show ?thesis .
qed

lemma sql_claim_backlog:
  fixes s :: "('j, 'x) pg_state_scheme"
  assumes ok: "pg_ok s" and fair: "fair_scan env" and now: "pg_now s \<le> horizon s"
    and lock: "horizon s \<le> pg_now s + minute * mins"
    and run: "sql_claim limit mins env s = (Inr rows, t)"
  shows "horizon t = horizon s \<and> pg_now t = pg_now s \<and> pg_backlog t + length rows \<le> pg_backlog s"
proof -
  define c where "c = (claim_row (pg_now s + minute * mins) :: 'j event \<Rightarrow> 'j event)"
  let ?H = "horizon s"
  from ok have dist: "distinct (map eid (outbox_events s))" by (simp add: pg_ok_def)
  obtain ids where ids: "ids = sql_select_next limit env s" and rd: "distinct (map eid rows)"
    and ri: "eid ` set rows = set ids"
    and t: "t = s\<lparr> outbox_events := map (\<lambda>r. if eid r \<in> set ids then c r else r) (outbox_events s) \<rparr>"
    by (rule sql_claim_result[OF fair dist run, folded c_def]) simp
  have picked: "claimable ?H x" if x: "x \<in> set (outbox_events s)" and "eid x \<in> set ids" for x
  proof -
    from subsetD[OF select_next_claimable[OF fair] that(2)[unfolded ids]] obtain y where
      y: "y \<in> set (outbox_events s)" "claimable (pg_now s) y" "eid x = eid y" by blast
    with key_unique[OF dist x] claimable_mono[OF _ now] show ?thesis by blast
  qed
  have after: "\<not> claimable ?H (c x)" for x
    using lock by (simp add: c_def claimable_def)
  let ?f = "\<lambda>r. if eid r \<in> set ids then c r else r"
  have "pg_backlog t = length (filter (claimable ?H \<circ> ?f) (outbox_events s))"
    by (simp add: pg_backlog_def t filter_map)
  also have "filter (claimable ?H \<circ> ?f) (outbox_events s) =
      filter (\<lambda>x. claimable ?H x \<and> eid x \<notin> set ids) (outbox_events s)"
    using after by (intro filter_cong) auto
  finally have rest: "pg_backlog t = length (filter (\<lambda>x. claimable ?H x \<and> eid x \<notin> set ids) (outbox_events s))" .
  have "set ids \<subseteq> eid ` set (outbox_events s)"
    using select_next_claimable[OF fair] unfolding ids by blast
  then have "length rows = length (filter (\<lambda>x. eid x \<in> set ids) (outbox_events s))"
    by (simp add: filter_in_keys_length[OF dist rd ri])
  also have "filter (\<lambda>x. eid x \<in> set ids) (outbox_events s) =
      filter (\<lambda>x. claimable ?H x \<and> eid x \<in> set ids) (outbox_events s)"
    using picked by (intro filter_cong) auto
  finally have "pg_backlog t + length rows = pg_backlog s"
    using rest length_filter_split[of "claimable ?H" "outbox_events s" "\<lambda>x. eid x \<in> set ids"]
    by (simp add: pg_backlog_def)
  then show ?thesis by (simp add: t)
qed

lemma pg_fetch_claim:
  assumes "pg_fetch_next_to_process c cfg l s = (Inr evs, t)"
  obtains rows where
    "sql_claim (unat l) (sint (lock_timeout_mins cfg)) (next_env s) (advance s) = (Inr rows, t)"
    and "decode_rows (from_value c) rows = Inr evs"
  using assms unfolding pg_fetch_next_to_process_def
  by (auto elim!: database_error_cases and_then_okE run_stmt_cases split: sum.splits)

lemma pg_fetch_claims:
  fixes s :: "('j, 'x) pg_state_scheme"
  assumes ok: "pg_ok s" and calm: "pg_calm cfg s"
    and run: "pg_fetch_next_to_process c cfg l s = (Inr evs, t)"
  shows "pg_calm cfg t \<and> pg_backlog t + length evs \<le> pg_backlog s"
proof -
  obtain rows where
    claim: "sql_claim (unat l) (sint (lock_timeout_mins cfg)) (next_env s) (advance s) = (Inr rows, t)"
    and dec: "decode_rows (from_value c) rows = Inr evs"
    by (rule pg_fetch_claim[OF run])
  have len: "length evs = length rows" using decode_rows_keys(1)[OF dec] by (metis length_map)
  have calm': "horizon (advance s) \<le> pg_now (advance s) + minute * sint (lock_timeout_mins cfg)"
    using pg_calm_advance[OF calm] by (simp add: pg_calm_def)
  from sql_claim_backlog[OF pg_ok_advance[OF ok] pg_ok_next_fair[OF ok] _ calm' claim]
  have "horizon t = horizon s" "pg_now t = pg_now (advance s)"
    "pg_backlog t + length rows \<le> pg_backlog (advance s)"
    using now_advance(2)[of s] by auto
  then show ?thesis using pg_calm_advance[OF calm] len by (simp add: pg_calm_def pg_backlog_def)
qed

lemma pg_update_calm:
  assumes calm: "pg_calm cfg s" and run: "pg_update_status ids Sent s = (Inr u, t)"
  shows "pg_calm cfg t \<and> pg_backlog t \<le> pg_backlog s"
proof -
  from run have "t = (advance s)\<lparr> outbox_events :=
      map (\<lambda>r. if eid r \<in> set ids then r\<lparr> status := Sent \<rparr> else r) (outbox_events s) \<rparr>"
    unfolding pg_update_status_def
    by (auto elim!: database_error_cases run_stmt_cases simp: sql_update_status_def)
  note t = this
  have "length (filter (claimable (horizon s) \<circ> (\<lambda>r. if eid r \<in> set ids then r\<lparr> status := Sent \<rparr> else r))
      (outbox_events s)) \<le> length (filter (claimable (horizon s)) (outbox_events s))"
    by (rule length_filter_le_length_filter) (auto simp: claimable_def split: if_splits)
  then show ?thesis
    using pg_calm_advance[OF calm] by (simp add: t pg_backlog_def filter_map pg_calm_def)
qed

section \<open>The fetch, exactly\<close>

lemma decode_rows_members:
  "decode_rows from rows = Inr evs \<Longrightarrow> set evs = {e. \<exists>r \<in> set rows. decode_row from r = Inr e}"
  by (induction rows arbitrary: evs) (auto split: sum.splits)

lemma decode_rows_error:
  "(\<exists>m. decode_rows from rows = Inl m) \<longleftrightarrow> (\<exists>r \<in> set rows. \<exists>m. decode_row from r = Inl m)"
  by (induction rows) (auto split: sum.splits)

lemma fetch_exact:
  fixes s :: "('j, 'x) pg_state_scheme"
  assumes ok: "pg_ok s" and run: "pg_fetch_next_to_process c cfg l s = (Inr evs, t)"
  defines "now \<equiv> pg_now (advance s)"
  defines "until \<equiv> now + minute * sint (lock_timeout_mins cfg)"
  shows "set evs = {e. \<exists>r \<in> set (outbox_events s). eid r \<in> eid ` set evs \<and>
      decode_row (from_value c) (claim_row until r) = Inr e}"
    and "length evs = min (unat l) (length (filter (eligible (next_env s) (advance s)) (outbox_events s)))"
    and "outbox_events t =
      map (\<lambda>r. if eid r \<in> eid ` set evs then claim_row until r else r) (outbox_events s)"
    and "\<forall>r \<in> set (outbox_events s). eid r \<in> eid ` set evs \<longrightarrow> eligible (next_env s) (advance s) r \<and>
      (\<forall>r' \<in> set (outbox_events s). eligible (next_env s) (advance s) r' \<and> eid r' \<notin> eid ` set evs \<longrightarrow>
         locked_until r \<le> locked_until r')"
proof -
  have dist: "distinct (map eid (outbox_events (advance s)))" using ok by (simp add: pg_ok_def)
  note fair = pg_ok_next_fair[OF ok]
  obtain rows where
    claim: "sql_claim (unat l) (sint (lock_timeout_mins cfg)) (next_env s) (advance s) = (Inr rows, t)"
    and dec: "decode_rows (from_value c) rows = Inr evs" by (rule pg_fetch_claim[OF run])
  obtain ids where ids: "ids = sql_select_next (unat l) (next_env s) (advance s)"
    and rows: "set rows = claim_row until ` {x \<in> set (outbox_events s). eid x \<in> set ids}"
    and rd: "distinct (map eid rows)" and ri: "eid ` set rows = set ids"
    and t: "t = (advance s)\<lparr> outbox_events := map (\<lambda>r. if eid r \<in> set ids then claim_row until r else r)
      (outbox_events s) \<rparr>"
    by (rule sql_claim_result[OF fair dist claim, folded now_def, folded until_def, unfolded advance_simps])
      simp
  have keys: "map eid evs = map eid rows" by (rule decode_rows_keys(1)[OF dec])
  then have ei: "eid ` set evs = set ids" using ri by (metis list.set_map)
  have "set evs = {e. \<exists>r \<in> set rows. decode_row (from_value c) r = Inr e}"
    by (rule decode_rows_members[OF dec])
  then show "set evs = {e. \<exists>r \<in> set (outbox_events s). eid r \<in> eid ` set evs \<and>
      decode_row (from_value c) (claim_row until r) = Inr e}"
    unfolding ei rows by blast
  have "distinct ids"
    unfolding ids select_next_candidates
    using dist candidates_mset[OF fair, of "advance s"]
    by (metis distinct_map_filter distinct_map_mset_eq distinct_take take_map)
  then have "length ids = card (eid ` set rows)" by (simp add: ri distinct_card)
  also have "card (eid ` set rows) = length rows" using rd distinct_card[of "map eid rows"] by simp
  also have "length rows = length evs" using keys by (metis length_map)
  finally show "length evs = min (unat l)
      (length (filter (eligible (next_env s) (advance s)) (outbox_events s)))"
    using select_next_length_eq[OF fair, of "unat l" "advance s"] by (simp add: ids)
  show "outbox_events t =
      map (\<lambda>r. if eid r \<in> eid ` set evs then claim_row until r else r) (outbox_events s)"
    by (simp add: t ei)
  show "\<forall>r \<in> set (outbox_events s). eid r \<in> eid ` set evs \<longrightarrow> eligible (next_env s) (advance s) r \<and>
      (\<forall>r' \<in> set (outbox_events s). eligible (next_env s) (advance s) r' \<and> eid r' \<notin> eid ` set evs \<longrightarrow>
         locked_until r \<le> locked_until r')"
    unfolding ei
  proof (intro ballI impI conjI)
    fix r assume r: "r \<in> set (outbox_events s)" "eid r \<in> set ids"
    from subsetD[OF select_next_claimable[OF fair] r(2)[unfolded ids]] obtain y where
      "y \<in> set (outbox_events s)" "eligible (next_env s) (advance s) y" "eid r = eid y"
      by (auto simp: eligible_def)
    with key_unique[of eid "outbox_events s"] dist r(1)
    show "eligible (next_env s) (advance s) r" by (metis advance_simps(1))
    show "locked_until r \<le> locked_until r'"
      if "r' \<in> set (outbox_events s)" "eligible (next_env s) (advance s) r' \<and> eid r' \<notin> set ids" for r'
      using select_next_oldest[OF fair dist, of r "unat l" r'] r that unfolding ids by simp
  qed
qed

lemma fetched_eligible:
  assumes ok: "pg_ok s" and run: "pg_fetch_next_to_process c cfg l s = (Inr evs, t)"
    and "e \<in> set evs"
  shows "\<exists>r \<in> set (outbox_events s). eid r = eid e \<and> eligible (next_env s) (advance s) r"
proof -
  from subsetD[OF equalityD1[OF fetch_exact(1)[OF ok run]] assms(3)] obtain r where
    r: "r \<in> set (outbox_events s)" "eid r \<in> eid ` set evs"
    and d: "decode_row (from_value c) (claim_row (pg_now (advance s) +
      minute * sint (lock_timeout_mins cfg)) r) = Inr e" by blast
  from d have "eid r = eid e" by (auto simp: decode_row_def with_payload_def split: sum.splits)
  with r fetch_exact(4)[OF ok run] show ?thesis by blast
qed

text \<open>On a quiet script a fetch of decodable rows cannot fail, and takes no time.\<close>

lemma advance_quiet: "pg_script s = [] \<Longrightarrow> advance s = s"
  by (simp add: advance_def next_env_def quiet_env_def)

lemma quiet_fetch:
  fixes s :: "('j, 'x) pg_state_scheme"
  assumes ok: "pg_ok s" and quiet: "pg_script s = []"
    and dec: "\<forall>r \<in> set (outbox_events s). \<exists>p. from_value c (as_value (payload r)) = Inr p"
  obtains evs t where "pg_fetch_next_to_process c cfg l s = (Inr evs, t)"
    and "t = s\<lparr> outbox_events := outbox_events t \<rparr>"
proof -
  obtain q u where claim:
    "sql_claim (unat l) (sint (lock_timeout_mins cfg)) (next_env s) (advance s) = (q, u)" by fastforce
  have dist: "distinct (map eid (outbox_events (advance s)))" using ok by (simp add: pg_ok_def)
  obtain rows ids where q: "q = Inr rows"
    and rows: "set rows = claim_row (pg_now s + minute * sint (lock_timeout_mins cfg)) `
      {x \<in> set (outbox_events s). eid x \<in> set ids}"
    and u: "u = s\<lparr> outbox_events := map (\<lambda>r. if eid r \<in> set ids
      then claim_row (pg_now s + minute * sint (lock_timeout_mins cfg)) r else r) (outbox_events s) \<rparr>"
    by (rule sql_claim_result[OF pg_ok_next_fair[OF ok] dist claim, unfolded advance_quiet[OF quiet]]) simp
  have "\<not> (\<exists>m. decode_rows (from_value c) rows = Inl m)"
    unfolding decode_rows_error rows using dec by (fastforce simp: decode_row_def)
  then obtain evs where "decode_rows (from_value c) rows = Inr evs" by (cases "decode_rows (from_value c) rows") auto
  then have "pg_fetch_next_to_process c cfg l s = (Inr evs, u)"
    using claim q quiet
    by (simp add: pg_fetch_next_to_process_def database_error_def and_then_def run_stmt_def
        next_env_def quiet_env_def)
  with that u show thesis by simp
qed

end
