(* ===== verification/Redis.thy ===== *)
theory Redis
  imports Complex_Main Outbox_Traits
begin

text \<open>
  \<^verbatim>\<open>outbox-redis\<close>: the token provider (\<^verbatim>\<open>lib.rs\<close>) and the dead-letter heap (\<^verbatim>\<open>dlq.rs\<close>), both
  methods of one \<open>RedisProvider\<close>.

  The server, the \<open>redis\<close> client, the \<open>moka\<close> cache and the \<open>uuid\<close> crate are outside the
  repository. A connection is the record of the commands the code sends; the code's own part is
  which commands it sends, with which keys and arguments, and what it makes of the replies. What the
  Redis documentation promises of the commands is the locale \<open>redis_service\<close>. Parsing a score
  (\<open>str::parse::<f64>\<close>) is an argument as well; what is done with the number is modelled.
\<close>

section \<open>Replies as numbers\<close>

datatype f64 = Finite rat | PosInf | NegInf | NaN

fun max_zero :: "f64 \<Rightarrow> f64" where
  "max_zero (Finite q) = Finite (max q 0)"
| "max_zero PosInf = PosInf"
| "max_zero NegInf = Finite 0"
| "max_zero NaN = Finite 0"

fun as_u32 :: "f64 \<Rightarrow> u32" where
  "as_u32 (Finite q) = (if q < 0 then 0 else count_u32 (nat \<lfloor>q\<rfloor>))"
| "as_u32 PosInf = 4294967295"
| "as_u32 NegInf = 0"
| "as_u32 NaN = 0"

lemma as_u32_of_nat: "as_u32 (max_zero (Finite (of_nat n))) = count_u32 n"
  by simp

section \<open>The provider\<close>

record 's redis_conn =
  set_nx_ex :: "string \<Rightarrow> string \<Rightarrow> nat \<Rightarrow> ('s, string, string option) call"
  zincrby :: "string \<Rightarrow> int \<Rightarrow> string \<Rightarrow> ('s, string, f64) call"
  zrem :: "string \<Rightarrow> string \<Rightarrow> ('s, string, int) call"
  zrangebyscore :: "string \<Rightarrow> nat \<Rightarrow> ('s, string, string list) call"
  zremrangebyscore :: "string \<Rightarrow> nat \<Rightarrow> ('s, string, int) call"
  run_script :: "('s, string, string list) call \<Rightarrow> ('s, string, string list) call"

record 's moka_cache =
  contains_key :: "string \<Rightarrow> 's \<Rightarrow> bool"
  cache_insert :: "string \<Rightarrow> 's \<Rightarrow> 's"

record text_codec =
  uuid_to_string :: "uuid \<Rightarrow> string"
  parse_uuid :: "string \<Rightarrow> string + uuid"
  parse_f64 :: "string \<Rightarrow> string + f64"

record redis_token_config =
  ttl :: nat
  key_prefix :: string
  local_cache_capacity :: u64

text \<open>A \<open>Duration\<close> is its number of nanoseconds; \<open>as_secs\<close> drops the fraction.\<close>

definition nanos_per_sec :: nat where "nanos_per_sec = 1000000000"

definition as_secs :: "nat \<Rightarrow> nat" where "as_secs d = d div nanos_per_sec"

definition RedisTokenConfig_default :: redis_token_config where
  "RedisTokenConfig_default =
     \<lparr> ttl = 24 * 3600 * nanos_per_sec, key_prefix = ''i_token'', local_cache_capacity = 10000 \<rparr>"

record 's redis_provider =
  connection :: "'s redis_conn"
  local_cache :: "'s moka_cache option"
  rp_config :: redis_token_config

text \<open>
  \<open>RedisProvider::new\<close>. The cache builder is given a time to live and nothing else; \<open>moka_build\<close>
  takes the two settings a \<open>moka\<close> builder has for it, the maximal capacity being optional.
\<close>

record ('s, 'c) redis_client_lib =
  client_open :: "string \<Rightarrow> string + 'c"
  client_connect :: "'c \<Rightarrow> ('s, string, 's redis_conn) call"
  moka_build :: "u64 option \<Rightarrow> nat option \<Rightarrow> 's moka_cache"

definition RedisProvider_new :: "bool \<Rightarrow> ('s, 'c) redis_client_lib \<Rightarrow> string \<Rightarrow> redis_token_config \<Rightarrow>
    ('s, 's redis_provider) io" where
  "RedisProvider_new moka lib connection_info cfg s =
     (case client_open lib connection_info of
        Inl e \<Rightarrow> (Inl (InfrastructureError (''Invalid Redis URL: '' @ e)), s)
      | Inr client \<Rightarrow>
          (case client_connect lib client s of
             (Inl e, t) \<Rightarrow> (Inl (InfrastructureError ''Redis connection failed''), t)
           | (Inr conn, t) \<Rightarrow>
               (Inr \<lparr> connection = conn,
                      local_cache = (if moka then Some (moka_build lib None (Some (ttl cfg))) else None),
                      rp_config = cfg \<rparr>, t)))"

definition token_key :: "'s redis_provider \<Rightarrow> string \<Rightarrow> string" where
  "token_key rp token_str = key_prefix (rp_config rp) @ '':'' @ token_str"

definition redis_try_reserve :: "'s redis_provider \<Rightarrow> idempotency_token \<Rightarrow> ('s, bool) io" where
  "redis_try_reserve rp token s =
     (let token_str = token_as_str token;
          redis_key = token_key rp token_str
      in if (case local_cache rp of None \<Rightarrow> False | Some c \<Rightarrow> contains_key c token_str s)
         then (Inr False, s)
         else (case set_nx_ex (connection rp) redis_key ''1'' (as_secs (ttl (rp_config rp))) s of
                 (Inl e, t) \<Rightarrow> (Inl (InfrastructureError e), t)
               | (Inr result, t) \<Rightarrow>
                   let is_new = (result \<noteq> None)
                   in if is_new
                      then (Inr True,
                            (case local_cache rp of None \<Rightarrow> t | Some c \<Rightarrow> cache_insert c token_str t))
                      else (Inr False, t)))"

definition RedisProvider_tokens :: "'s redis_provider \<Rightarrow> 's idempotency_provider" where
  "RedisProvider_tokens rp = \<lparr> try_reserve = redis_try_reserve rp \<rparr>"

section \<open>The dead-letter heap\<close>

definition DLQ_KEY_SUFFIX :: string where
  "DLQ_KEY_SUFFIX = ''dlq''"

definition dlq_key :: "'s redis_provider \<Rightarrow> string" where
  "dlq_key rp = key_prefix (rp_config rp) @ '':'' @ DLQ_KEY_SUFFIX"

definition infrastructure_error :: "('s, string, 'r) call \<Rightarrow> ('s, 'r) io" where
  "infrastructure_error c s =
     (case c s of (Inl e, t) \<Rightarrow> (Inl (InfrastructureError e), t) | (Inr x, t) \<Rightarrow> (Inr x, t))"

definition redis_record_failure :: "text_codec \<Rightarrow> 's redis_provider \<Rightarrow> event_id \<Rightarrow> ('s, unit) io" where
  "redis_record_failure tc rp i =
     and_then
       (infrastructure_error
         (zincrby (connection rp) (dlq_key rp) 1 (uuid_to_string tc (as_uuid i))))
       (\<lambda>_. ret ())"

definition redis_record_success :: "text_codec \<Rightarrow> 's redis_provider \<Rightarrow> event_id \<Rightarrow> ('s, unit) io" where
  "redis_record_success tc rp i =
     and_then
       (infrastructure_error (zrem (connection rp) (dlq_key rp) (uuid_to_string tc (as_uuid i))))
       (\<lambda>_. ret ())"

text \<open>The Lua script.\<close>

definition drain_script :: "'s redis_conn \<Rightarrow> string \<Rightarrow> nat \<Rightarrow> ('s, string, string list) call" where
  "drain_script c key threshold =
     and_then (zrangebyscore c key threshold)
       (\<lambda>items. if 0 < length items
                then and_then (zremrangebyscore c key threshold) (\<lambda>_. ret items)
                else ret items)"

text \<open>\<open>raw.chunks_exact(2)\<close>, with the two parses of the loop body.\<close>

fun parse_pairs :: "text_codec \<Rightarrow> string list \<Rightarrow> outbox_error + dlq_entry list" where
  "parse_pairs tc (member # score # rest) =
     (case parse_uuid tc member of
        Inl e \<Rightarrow> Inl (InfrastructureError
          (''Invalid UUID '' @ [CHR 0x27] @ member @ [CHR 0x27] @ '' in DLQ zset: '' @ e))
      | Inr uuid \<Rightarrow>
          (case parse_f64 tc score of
             Inl e \<Rightarrow> Inl (InfrastructureError
               (''Invalid score '' @ [CHR 0x27] @ score @ [CHR 0x27] @ '' in DLQ zset: '' @ e))
           | Inr x \<Rightarrow>
               (case parse_pairs tc rest of
                  Inl e \<Rightarrow> Inl e
                | Inr out \<Rightarrow>
                    Inr (DlqEntry_new (EventId_load uuid) (as_u32 (max_zero x)) None # out))))"
| "parse_pairs tc _ = Inr []"

definition redis_drain_exceeded :: "text_codec \<Rightarrow> 's redis_provider \<Rightarrow> u32 \<Rightarrow>
    ('s, dlq_entry list) io" where
  "redis_drain_exceeded tc rp threshold =
     and_then
       (infrastructure_error (run_script (connection rp)
         (drain_script (connection rp) (dlq_key rp) (unat threshold))))
       (\<lambda>raw. case parse_pairs tc raw of Inl e \<Rightarrow> throw e | Inr out \<Rightarrow> ret out)"

definition RedisProvider_heap :: "text_codec \<Rightarrow> 's redis_provider \<Rightarrow> 's dlq_heap" where
  "RedisProvider_heap tc rp =
     \<lparr> record_failure = redis_record_failure tc rp,
       record_success = redis_record_success tc rp,
       drain_exceeded = redis_drain_exceeded tc rp \<rparr>"

lemma RedisProvider_simps [simp]:
  "record_failure (RedisProvider_heap tc rp) = redis_record_failure tc rp"
  "record_success (RedisProvider_heap tc rp) = redis_record_success tc rp"
  "drain_exceeded (RedisProvider_heap tc rp) = redis_drain_exceeded tc rp"
  "try_reserve (RedisProvider_tokens rp) = redis_try_reserve rp"
  by (simp_all add: RedisProvider_heap_def RedisProvider_tokens_def)

lemma infrastructure_error_ok [simp]:
  "infrastructure_error c s = (Inr x, t) \<longleftrightarrow> c s = (Inr x, t)"
  by (auto simp: infrastructure_error_def split: prod.splits sum.splits)

lemma infrastructure_error_err [simp]:
  "infrastructure_error c s = (Inl e, t) \<longleftrightarrow> (\<exists>m. e = InfrastructureError m \<and> c s = (Inl m, t))"
  by (auto simp: infrastructure_error_def split: prod.splits sum.splits)

section \<open>What the server promises\<close>

text \<open>
  The documented behaviour of the commands, over two views of the keyspace: \<open>str_at\<close> (keys that
  hold a string) and \<open>zset\<close> (the scores of a sorted set; a key that does not exist is an empty
  one). A command that fails promises nothing here, except that a sorted-set command on a string
  key always fails and changes nothing. Scores count exactly up to \<open>2 ^ 53\<close>.
\<close>

locale redis_service =
  fixes rp :: "'s redis_provider"
    and tc :: text_codec
    and score_text :: "nat \<Rightarrow> string"
    and str_at :: "'s \<Rightarrow> string \<Rightarrow> string option"
    and zset :: "'s \<Rightarrow> string \<Rightarrow> string \<Rightarrow> nat option"
  assumes uuid_text: "parse_uuid tc (uuid_to_string tc u) = Inr u"
    and score_parse: "n \<le> 2 ^ 53 \<Longrightarrow> parse_f64 tc (score_text n) = Inr (Finite (of_nat n))"
    and set_free:
    "set_nx_ex (connection rp) k v n s = (Inr r, t) \<Longrightarrow> str_at s k = None \<and> zset s k = Map.empty \<Longrightarrow>
       r \<noteq> None \<and> str_at t = (str_at s)(k \<mapsto> v) \<and> zset t = zset s"
    and set_taken:
    "set_nx_ex (connection rp) k v n s = (Inr r, t) \<Longrightarrow> str_at s k \<noteq> None \<or> zset s k \<noteq> Map.empty \<Longrightarrow>
       r = None \<and> str_at t = str_at s \<and> zset t = zset s"
    and set_expire_zero:
    "set_nx_ex (connection rp) k v 0 s = (q0, t) \<Longrightarrow> \<exists>e. q0 = Inl e"
    and zincrby_ok:
    "zincrby (connection rp) k 1 mem s = (Inr x, t) \<Longrightarrow> case_option 0 id (zset s k mem) < 2 ^ 53 \<Longrightarrow>
       str_at t = str_at s \<and>
       zset t = (zset s)(k := (zset s k)(mem \<mapsto> Suc (case_option 0 id (zset s k mem))))"
    and zincrby_wrong_type:
    "str_at s k \<noteq> None \<Longrightarrow> zincrby (connection rp) k d mem s = (q, t) \<Longrightarrow>
       (\<exists>e. q = Inl e) \<and> str_at t = str_at s \<and> zset t = zset s"
    and zrem_ok:
    "zrem (connection rp) k mem s = (Inr y, t) \<Longrightarrow>
       str_at t = str_at s \<and> zset t = (zset s)(k := (zset s k)(mem := None))"
    and zrange_ok:
    "zrangebyscore (connection rp) k lo s = (Inr items, t) \<Longrightarrow>
       str_at t = str_at s \<and> zset t = zset s \<and>
       (\<exists>ps. distinct (map fst ps) \<and> set ps = {(m, c). zset s k m = Some c \<and> lo \<le> c} \<and>
         items = concat (map (\<lambda>(m, c). [m, score_text c]) ps))"
    and zremrange_ok:
    "zremrangebyscore (connection rp) k lo s = (Inr z, t) \<Longrightarrow>
       str_at t = str_at s \<and>
       zset t = (zset s)(k := (\<lambda>m. if \<exists>c. zset s k m = Some c \<and> lo \<le> c then None else zset s k m))"
    and script_ok:
    "run_script (connection rp) body s = (Inr items, t) \<Longrightarrow> body s = (Inr items, t)"

text \<open>The counters and the well-formedness of the sorted set, as the heap contract sees them.\<close>

definition redis_counts :: "text_codec \<Rightarrow> 's redis_provider \<Rightarrow> ('s \<Rightarrow> string \<Rightarrow> string \<Rightarrow> nat option) \<Rightarrow>
    's \<Rightarrow> event_id \<Rightarrow> nat" where
  "redis_counts tc rp zset s i =
     case_option 0 id (zset s (dlq_key rp) (uuid_to_string tc (as_uuid i)))"

definition redis_hinv :: "text_codec \<Rightarrow> 's redis_provider \<Rightarrow> ('s \<Rightarrow> string \<Rightarrow> string \<Rightarrow> nat option) \<Rightarrow>
    's \<Rightarrow> bool" where
  "redis_hinv tc rp zset s \<longleftrightarrow>
     (\<forall>m c. zset s (dlq_key rp) m = Some c \<longrightarrow>
        (\<exists>u. m = uuid_to_string tc u) \<and> 0 < c \<and> c \<le> 2 ^ 53)"

lemma redis_counts_cong:
  "zset t = zset s \<Longrightarrow> redis_counts tc rp zset t = redis_counts tc rp zset s"
  "zset t = zset s \<Longrightarrow> redis_hinv tc rp zset t = redis_hinv tc rp zset s"
  by (auto simp: redis_counts_def redis_hinv_def fun_eq_iff)

lemma drain_script_okE:
  assumes "drain_script c key lo s = (Inr items, t)"
  obtains (none) "items = []" and "zrangebyscore c key lo s = (Inr [], t)"
  | (some) u z where "items \<noteq> []" and "zrangebyscore c key lo s = (Inr items, u)"
      and "zremrangebyscore c key lo u = (Inr z, t)"
  using assms by (auto simp: drain_script_def and_then_def split: prod.splits sum.splits if_splits)

context redis_service
begin

lemma uuid_string_inject [simp]: "uuid_to_string tc u = uuid_to_string tc v \<longleftrightarrow> u = v"
  by (metis uuid_text Inr_inject)

lemma parse_pairs_zset:
  assumes "\<forall>(m, c) \<in> set ps. (\<exists>u. m = uuid_to_string tc u) \<and> c \<le> 2 ^ 53"
  shows "parse_pairs tc (concat (map (\<lambda>(m, c). [m, score_text c]) ps)) =
    Inr (map (\<lambda>(m, c). DlqEntry_new (EventId_load (projr (parse_uuid tc m))) (count_u32 c) None) ps)"
  using assms
proof (induction ps)
  case Nil
  then show ?case by simp
next
  case (Cons p ps)
  obtain m c where p: "p = (m, c)" by fastforce
  with Cons.prems obtain u where m: "m = uuid_to_string tc u" and c: "c \<le> 2 ^ 53" by auto
  have "parse_f64 tc (score_text c) = Inr (Finite (of_nat c))" by (rule score_parse[OF c])
  then show ?case using Cons p m by (simp add: uuid_text as_u32_of_nat del: as_u32.simps max_zero.simps)
qed

lemma script_items:
  assumes "drain_script (connection rp) k lo s = (Inr items, t)"
  shows "\<exists>ps. distinct (map fst ps) \<and> set ps = {(m, c). zset s k m = Some c \<and> lo \<le> c} \<and>
      items = concat (map (\<lambda>(m, c). [m, score_text c]) ps) \<and>
      zset t = (zset s)(k := (\<lambda>m. if \<exists>c. zset s k m = Some c \<and> lo \<le> c then None else zset s k m))"
  using assms
proof (cases rule: drain_script_okE)
  case none
  from zrange_ok[OF none(2)] obtain ps where
    ps: "zset t = zset s" "set ps = {(m, c). zset s k m = Some c \<and> lo \<le> c}"
      "[] = concat (map (\<lambda>(m, c). [m, score_text c]) ps)" by auto
  then have "ps = []" by (cases ps) auto
  with ps(2) have nomem: "\<not> (\<exists>c. zset s k m = Some c \<and> lo \<le> c)" for m by auto
  then show ?thesis
    using ps(1) none(1) by (intro exI[of _ "[]"]) (auto simp: fun_eq_iff)
next
  case (some u z)
  from zrange_ok[OF some(2)] have u: "zset u = zset s" by blast
  from zrange_ok[OF some(2)] zremrange_ok[OF some(3), unfolded u] show ?thesis by blast
qed

lemma heap_failure:
  assumes "redis_hinv tc rp zset s" and "redis_counts tc rp zset s i < 2 ^ 53"
    and run: "redis_record_failure tc rp i s = (Inr u, t)"
  shows "redis_hinv tc rp zset t \<and>
    redis_counts tc rp zset t = (redis_counts tc rp zset s)(i := Suc (redis_counts tc rp zset s i))"
proof -
  from run obtain x where
    z: "zincrby (connection rp) (dlq_key rp) 1 (uuid_to_string tc (as_uuid i)) s = (Inr x, t)"
    unfolding redis_record_failure_def by (auto elim!: and_then_okE)
  from zincrby_ok[OF z] assms(2) have t: "zset t = (zset s)(dlq_key rp :=
      (zset s (dlq_key rp))(uuid_to_string tc (as_uuid i) \<mapsto> Suc (redis_counts tc rp zset s i)))"
    by (simp add: redis_counts_def)
  have "redis_counts tc rp zset t j =
      (if j = i then Suc (redis_counts tc rp zset s i) else redis_counts tc rp zset s j)" for j
    by (simp add: redis_counts_def t)
  moreover have "redis_hinv tc rp zset t"
    using assms(1,2) by (auto simp: redis_hinv_def t)
  ultimately show ?thesis by auto
qed

lemma heap_success:
  assumes "redis_hinv tc rp zset s" and run: "redis_record_success tc rp i s = (Inr u, t)"
  shows "redis_hinv tc rp zset t \<and>
    redis_counts tc rp zset t = (redis_counts tc rp zset s)(i := 0)"
proof -
  from run obtain x where
    z: "zrem (connection rp) (dlq_key rp) (uuid_to_string tc (as_uuid i)) s = (Inr x, t)"
    unfolding redis_record_success_def by (auto elim!: and_then_okE)
  from zrem_ok[OF z] have t: "zset t = (zset s)(dlq_key rp :=
      (zset s (dlq_key rp))(uuid_to_string tc (as_uuid i) := None))" by simp
  have "redis_counts tc rp zset t j = (if j = i then 0 else redis_counts tc rp zset s j)" for j
    by (simp add: redis_counts_def t)
  moreover have "redis_hinv tc rp zset t" using assms(1) by (auto simp: redis_hinv_def t)
  ultimately show ?thesis by auto
qed

lemma script_parses:
  assumes "redis_hinv tc rp zset s" and "drain_script (connection rp) (dlq_key rp) lo s = (Inr items, t)"
  shows "\<exists>es. parse_pairs tc items = Inr es"
proof -
  from script_items[OF assms(2)] obtain ps where
    ps: "set ps = {(m, c). zset s (dlq_key rp) m = Some c \<and> lo \<le> c}"
    and items: "items = concat (map (\<lambda>(m, c). [m, score_text c]) ps)" by blast
  have "\<forall>(m, c) \<in> set ps. (\<exists>u. m = uuid_to_string tc u) \<and> c \<le> 2 ^ 53"
    using assms(1) ps by (auto simp: redis_hinv_def)
  from parse_pairs_zset[OF this] show ?thesis unfolding items by blast
qed

lemma heap_drain:
  assumes inv: "redis_hinv tc rp zset s" and run: "redis_drain_exceeded tc rp thr s = (Inr es, t)"
  defines "cnt \<equiv> redis_counts tc rp zset s"
  shows "redis_hinv tc rp zset t \<and> distinct (map dlq_id es) \<and>
    dlq_id ` set es = {i. 0 < cnt i \<and> unat thr \<le> cnt i} \<and>
    (\<forall>e \<in> set es. failure_count e = count_u32 (cnt (dlq_id e))) \<and>
    redis_counts tc rp zset t = (\<lambda>i. if unat thr \<le> cnt i then 0 else cnt i)"
proof -
  let ?entry = "\<lambda>(m, c). DlqEntry_new (EventId_load (projr (parse_uuid tc m))) (count_u32 c) None"
  from run obtain raw where
    "run_script (connection rp) (drain_script (connection rp) (dlq_key rp) (unat thr)) s = (Inr raw, t)"
    and es: "parse_pairs tc raw = Inr es"
    unfolding redis_drain_exceeded_def by (auto elim!: and_then_okE split: sum.splits)
  from script_items[OF script_ok[OF this(1)]] obtain ps where
    ps: "distinct (map fst ps)" "set ps = {(m, c). zset s (dlq_key rp) m = Some c \<and> unat thr \<le> c}"
    and raw: "raw = concat (map (\<lambda>(m, c). [m, score_text c]) ps)"
    and t: "zset t = (zset s)(dlq_key rp := (\<lambda>m. if \<exists>c. zset s (dlq_key rp) m = Some c \<and> unat thr \<le> c
        then None else zset s (dlq_key rp) m))"
    by blast
  have wf: "\<forall>(m, c) \<in> set ps. (\<exists>u. m = uuid_to_string tc u) \<and> c \<le> 2 ^ 53"
    using inv ps(2) by (auto simp: redis_hinv_def)
  with es raw have es': "es = map ?entry ps" by (simp add: parse_pairs_zset)
  have mem: "(m, c) \<in> set ps \<longleftrightarrow> (\<exists>i. m = uuid_to_string tc (as_uuid i) \<and> cnt i = c \<and> 0 < c \<and> unat thr \<le> c)"
    for m c
  proof
    assume "(m, c) \<in> set ps"
    then have z: "zset s (dlq_key rp) m = Some c" "unat thr \<le> c" using ps(2) by auto
    with inv obtain u where u: "m = uuid_to_string tc u" "0 < c" by (auto simp: redis_hinv_def)
    then show "\<exists>i. m = uuid_to_string tc (as_uuid i) \<and> cnt i = c \<and> 0 < c \<and> unat thr \<le> c"
      using z by (intro exI[of _ "EventId_load u"]) (simp add: cnt_def redis_counts_def)
  next
    assume "\<exists>i. m = uuid_to_string tc (as_uuid i) \<and> cnt i = c \<and> 0 < c \<and> unat thr \<le> c"
    then show "(m, c) \<in> set ps"
      unfolding ps(2) by (auto simp: cnt_def redis_counts_def split: option.splits)
  qed
  have entry: "dlq_id (?entry (m, c)) = i \<and> failure_count (?entry (m, c)) = count_u32 c"
    if "m = uuid_to_string tc (as_uuid i)" for m c i
    using that by (simp add: DlqEntry_new_def uuid_text)
  have ids: "dlq_id ` set es = {i. 0 < cnt i \<and> unat thr \<le> cnt i}"
  proof (intro set_eqI iffI)
    fix i assume "i \<in> dlq_id ` set es"
    then obtain m c where "(m, c) \<in> set ps" "i = dlq_id (?entry (m, c))" by (auto simp: es')
    with mem entry show "i \<in> {i. 0 < cnt i \<and> unat thr \<le> cnt i}" by fastforce
  next
    fix i assume "i \<in> {i. 0 < cnt i \<and> unat thr \<le> cnt i}"
    then have "(uuid_to_string tc (as_uuid i), cnt i) \<in> set ps" using mem by blast
    then show "i \<in> dlq_id ` set es" using entry[OF refl, of i "cnt i"] by (force simp: es')
  qed
  have "inj_on (\<lambda>p. dlq_id (?entry p)) (set ps)"
  proof (rule inj_onI)
    fix p q assume p: "p \<in> set ps" and q: "q \<in> set ps" and eq: "dlq_id (?entry p) = dlq_id (?entry q)"
    obtain m c m' c' where pq: "p = (m, c)" "q = (m', c')" by fastforce
    from iffD1[OF mem, OF p[unfolded pq]] obtain i where
      i: "m = uuid_to_string tc (as_uuid i)" "cnt i = c" by (elim exE conjE) simp
    from iffD1[OF mem, OF q[unfolded pq]] obtain j where
      j: "m' = uuid_to_string tc (as_uuid j)" "cnt j = c'" by (elim exE conjE) simp
    from eq entry[OF i(1)] entry[OF j(1)] have "i = j" unfolding pq by simp
    with i j pq show "p = q" by simp
  qed
  moreover have "distinct ps" using ps(1) by (simp add: distinct_map)
  ultimately have "distinct (map dlq_id es)" by (simp add: es' distinct_map comp_def)
  moreover have "\<forall>e \<in> set es. failure_count e = count_u32 (cnt (dlq_id e))"
  proof
    fix e assume "e \<in> set es"
    then obtain m c where p: "(m, c) \<in> set ps" and e: "e = ?entry (m, c)" by (auto simp: es')
    from iffD1[OF mem, OF p] obtain i where
      i: "m = uuid_to_string tc (as_uuid i)" "cnt i = c" by (elim exE conjE) simp
    from entry[OF i(1), of c] i(2) show "failure_count e = count_u32 (cnt (dlq_id e))"
      unfolding e by simp
  qed
  moreover have "redis_counts tc rp zset t = (\<lambda>i. if unat thr \<le> cnt i then 0 else cnt i)"
    by (rule ext) (auto simp: redis_counts_def t cnt_def split: option.splits)
  moreover have "redis_hinv tc rp zset t" using inv by (auto simp: redis_hinv_def t split: if_splits)
  ultimately show ?thesis using ids by blast
qed

end

sublocale redis_service \<subseteq> heap: dlq_heap_contract "RedisProvider_heap tc rp"
    "redis_counts tc rp zset" "redis_hinv tc rp zset"
proof (unfold_locales, unfold RedisProvider_simps, goal_cases)
  case 1 then show ?case by (rule heap_failure)
next
  case 2 then show ?case by (rule heap_success)
next
  case 3 then show ?case by (rule heap_drain)
qed

section \<open>Token reservation over the service\<close>

text \<open>
  With the cache feature, the local cache only ever answers for tokens it was given, and entries
  may disappear from it at any time.
\<close>

definition redis_reserved :: "'s redis_provider \<Rightarrow> ('s \<Rightarrow> string \<Rightarrow> string option) \<Rightarrow>
    ('s \<Rightarrow> string \<Rightarrow> string \<Rightarrow> nat option) \<Rightarrow> 's \<Rightarrow> idempotency_token set" where
  "redis_reserved rp str_at zset s =
     {tok. str_at s (token_key rp (token_as_str tok)) \<noteq> None \<or>
           zset s (token_key rp (token_as_str tok)) \<noteq> Map.empty}"

definition cache_sound :: "'s redis_provider \<Rightarrow> ('s \<Rightarrow> string \<Rightarrow> string option) \<Rightarrow>
    ('s \<Rightarrow> string \<Rightarrow> string \<Rightarrow> nat option) \<Rightarrow> 's \<Rightarrow> bool" where
  "cache_sound rp str_at zset s \<longleftrightarrow>
     (\<forall>c tok. local_cache rp = Some c \<longrightarrow> contains_key c (token_as_str tok) s \<longrightarrow>
        tok \<in> redis_reserved rp str_at zset s)"

lemma token_key_inject [simp]: "token_key rp a = token_key rp b \<longleftrightarrow> a = b"
  by (simp add: token_key_def)

locale redis_tokens = redis_service +
  assumes cache_insert_contains:
    "local_cache rp = Some c \<Longrightarrow> contains_key c a (cache_insert c b s) \<Longrightarrow> a = b \<or> contains_key c a s"
    and cache_insert_frame:
    "local_cache rp = Some c \<Longrightarrow>
       str_at (cache_insert c b s) = str_at s \<and> zset (cache_insert c b s) = zset s"
    and set_cache_frame:
    "local_cache rp = Some c \<Longrightarrow> set_nx_ex (connection rp) k v n s = (q, t) \<Longrightarrow>
       contains_key c a t \<Longrightarrow> contains_key c a s"
begin

lemma granted_free:
  assumes "redis_try_reserve rp tok s = (Inr True, t)"
  shows "tok \<notin> redis_reserved rp str_at zset s"
proof -
  let ?k = "token_key rp (token_as_str tok)"
  from assms obtain r u where
    set: "set_nx_ex (connection rp) ?k ''1'' (as_secs (ttl (rp_config rp))) s = (Inr r, u)" and "r \<noteq> None"
    by (auto simp: redis_try_reserve_def Let_def split: if_splits sum.splits prod.splits)
  from set_taken[OF set] \<open>r \<noteq> None\<close> have "\<not> (str_at s ?k \<noteq> None \<or> zset s ?k \<noteq> Map.empty)" by blast
  then show ?thesis by (simp add: redis_reserved_def)
qed

lemma reserve_granted:
  assumes inv: "cache_sound rp str_at zset s"
    and run: "redis_try_reserve rp tok s = (Inr True, t)"
  shows "cache_sound rp str_at zset t \<and> tok \<notin> redis_reserved rp str_at zset s \<and>
    redis_reserved rp str_at zset t = insert tok (redis_reserved rp str_at zset s)"
proof -
  let ?k = "token_key rp (token_as_str tok)"
  from run obtain r u where
    set: "set_nx_ex (connection rp) ?k ''1'' (as_secs (ttl (rp_config rp))) s = (Inr r, u)" and "r \<noteq> None"
    and t: "t = (case local_cache rp of None \<Rightarrow> u | Some c \<Rightarrow> cache_insert c (token_as_str tok) u)"
    by (auto simp: redis_try_reserve_def Let_def split: if_splits sum.splits prod.splits)
  from set_taken[OF set] \<open>r \<noteq> None\<close> have "\<not> (str_at s ?k \<noteq> None \<or> zset s ?k \<noteq> Map.empty)" by blast
  then have free: "str_at s ?k = None" "zset s ?k = Map.empty" by blast+
  from set_free[OF set] free have u: "str_at u = (str_at s)(?k \<mapsto> ''1'')" "zset u = zset s" by auto
  have tu: "str_at t = str_at u" "zset t = zset u"
    using t cache_insert_frame by (auto split: option.splits)
  have res: "redis_reserved rp str_at zset t = insert tok (redis_reserved rp str_at zset s)"
    using free by (auto simp: redis_reserved_def tu u)
  have "cache_sound rp str_at zset t"
    unfolding cache_sound_def res
  proof (intro allI impI)
    fix c x assume c: "local_cache rp = Some c" and x: "contains_key c (token_as_str x) t"
    from x c t have "x = tok \<or> contains_key c (token_as_str x) u"
      using cache_insert_contains[OF c] by fastforce
    then have "x = tok \<or> contains_key c (token_as_str x) s" using set_cache_frame[OF c set] by blast
    with inv c show "x \<in> insert tok (redis_reserved rp str_at zset s)"
      by (auto simp: cache_sound_def)
  qed
  with res free show ?thesis by (simp add: redis_reserved_def)
qed

lemma reserve_refused:
  assumes inv: "cache_sound rp str_at zset s"
    and run: "redis_try_reserve rp tok s = (Inr False, t)"
  shows "cache_sound rp str_at zset t \<and> tok \<in> redis_reserved rp str_at zset s \<and>
    redis_reserved rp str_at zset t = redis_reserved rp str_at zset s"
proof (cases "\<exists>c. local_cache rp = Some c \<and> contains_key c (token_as_str tok) s")
  case True
  then have "t = s" using run by (auto simp: redis_try_reserve_def)
  with True inv show ?thesis by (auto simp: cache_sound_def)
next
  case False
  let ?k = "token_key rp (token_as_str tok)"
  from False run obtain r where
    set: "set_nx_ex (connection rp) ?k ''1'' (as_secs (ttl (rp_config rp))) s = (Inr r, t)" and "r = None"
    by (auto simp: redis_try_reserve_def Let_def split: if_splits sum.splits prod.splits option.splits)
  with set_free[OF set] have taken: "str_at s ?k \<noteq> None \<or> zset s ?k \<noteq> Map.empty" by auto
  from set_taken[OF set taken] have same: "str_at t = str_at s" "zset t = zset s" by auto
  then have res: "redis_reserved rp str_at zset t = redis_reserved rp str_at zset s"
    by (simp add: redis_reserved_def)
  have "cache_sound rp str_at zset t"
    using inv set_cache_frame set unfolding cache_sound_def res by blast
  with res taken show ?thesis by (simp add: redis_reserved_def)
qed

text \<open>
  A time to live under a second is sent as \<open>EX 0\<close>, which the server refuses: nothing is ever
  reserved.
\<close>

lemma sub_second_never_grants:
  assumes "ttl (rp_config rp) < nanos_per_sec" and "redis_try_reserve rp tok s = (r, t)"
  shows "r \<noteq> Inr True"
proof
  assume "r = Inr True"
  moreover have "as_secs (ttl (rp_config rp)) = 0" using assms(1) by (simp add: as_secs_def)
  ultimately obtain q u where "set_nx_ex (connection rp) (token_key rp (token_as_str tok)) ''1'' 0 s = (Inr q, u)"
    using assms(2) by (auto simp: redis_try_reserve_def Let_def split: if_splits sum.splits prod.splits)
  from set_expire_zero[OF this] show False by simp
qed

text \<open>
  The heap's key is the key of the token \<open>dlq\<close>. Once that token is reserved, every
  \<open>record_failure\<close> fails.
\<close>

lemma dlq_token_blocks_heap:
  assumes reserved: "redis_try_reserve rp (IdempotencyToken DLQ_KEY_SUFFIX) s = (Inr True, t)"
    and failed: "redis_record_failure tc rp i t = (r, u)"
  shows "\<exists>m. r = Inl (InfrastructureError m)"
proof -
  have key: "token_key rp DLQ_KEY_SUFFIX = dlq_key rp" by (simp add: token_key_def dlq_key_def)
  from reserved obtain q v where
    set: "set_nx_ex (connection rp) (dlq_key rp) ''1'' (as_secs (ttl (rp_config rp))) s = (Inr q, v)"
    and "q \<noteq> None"
    and t: "t = (case local_cache rp of None \<Rightarrow> v | Some c \<Rightarrow> cache_insert c DLQ_KEY_SUFFIX v)"
    unfolding redis_try_reserve_def
    by (auto simp: Let_def key split: if_splits sum.splits prod.splits)
  from set_taken[OF set] \<open>q \<noteq> None\<close>
  have "\<not> (str_at s (dlq_key rp) \<noteq> None \<or> zset s (dlq_key rp) \<noteq> Map.empty)" by blast
  then have "str_at s (dlq_key rp) = None \<and> zset s (dlq_key rp) = Map.empty" by blast
  from set_free[OF set this] have "str_at v (dlq_key rp) \<noteq> None" by simp
  then have "str_at t (dlq_key rp) \<noteq> None"
    using t cache_insert_frame by (auto split: option.splits)
  from zincrby_wrong_type[OF this] failed show ?thesis
    unfolding redis_record_failure_def and_then_def infrastructure_error_def
    by (fastforce split: prod.splits sum.splits)
qed

end

sublocale redis_tokens \<subseteq> tokens: reservation_contract "RedisProvider_tokens rp"
    "redis_reserved rp str_at zset" "cache_sound rp str_at zset"
proof (unfold_locales, unfold RedisProvider_simps, goal_cases)
  case 1 then show ?case by (rule reserve_granted)
next
  case 2 then show ?case by (rule reserve_refused)
qed

end
