(* ===== verification/Kafka.thy ===== *)
theory Kafka
  imports Outbox_Traits
begin

text \<open>
  \<^verbatim>\<open>outbox-kafka/src/lib.rs\<close>: the Kafka transport.

  \<open>rdkafka\<close>, \<open>serde_json\<close>, the payload type and the text forms of a UUID and of an instant are
  outside the repository. The producer is its \<open>send\<close> method (record, queue timeout in seconds), a
  client configuration is whatever \<open>create\<close> takes, and the encoders of the payload type are the
  record \<open>kafka_payload\<close>.
\<close>

type_synonym bytes = "8 word list"

record kafka_header =
  h_key :: string
  h_value :: "string option"

record future_record =
  fr_topic :: string
  fr_payload :: bytes
  fr_key :: bytes
  fr_headers :: "kafka_header list"

record 's kafka_producer =
  send :: "future_record \<Rightarrow> nat \<Rightarrow> ('s, string, unit) call"

record 's kafka_transport =
  kt_producer :: "'s kafka_producer"
  kt_topic :: string

record 'p kafka_payload =
  to_vec :: "'p payload \<Rightarrow> string + bytes"
  kafka_key :: "'p \<Rightarrow> bytes"
  uuid_text :: "uuid \<Rightarrow> string"
  instant_text :: "instant \<Rightarrow> string"

definition KafkaTransport_new :: "('cfg \<Rightarrow> string + 's kafka_producer) \<Rightarrow> string \<Rightarrow> 'cfg \<Rightarrow>
    's kafka_transport exec" where
  "KafkaTransport_new create tpc config =
     (case create config of
        Inl e \<Rightarrow> Panic (''Failed to create Kafka producer: '' @ e)
      | Inr p \<Rightarrow> Return \<lparr> kt_producer = p, kt_topic = tpc \<rparr>)"

definition kafka_headers :: "'p kafka_payload \<Rightarrow> 'p event \<Rightarrow> kafka_header list" where
  "kafka_headers kp event =
     (let headers =
        [\<lparr> h_key = ''event_id'', h_value = Some (uuid_text kp (as_uuid (eid event))) \<rparr>,
         \<lparr> h_key = ''event_type'', h_value = Some (event_type_as_str (event_type event)) \<rparr>,
         \<lparr> h_key = ''created_at'', h_value = Some (instant_text kp (created_at event)) \<rparr>]
      in case idempotency_token event of
           None \<Rightarrow> headers
         | Some i_token \<Rightarrow>
             headers @ [\<lparr> h_key = ''idempotency_token'', h_value = Some (token_as_str i_token) \<rparr>])"

definition kafka_publish :: "'p kafka_payload \<Rightarrow> 's kafka_transport \<Rightarrow> 'p event \<Rightarrow> ('s, unit) io" where
  "kafka_publish kp kt event s =
     (case to_vec kp (payload event) of
        Inl e \<Rightarrow> (Inl (InfrastructureError e), s)
      | Inr payload_bytes \<Rightarrow>
          (case send (kt_producer kt)
              \<lparr> fr_topic = kt_topic kt, fr_payload = payload_bytes,
                fr_key = kafka_key kp (as_value (payload event)),
                fr_headers = kafka_headers kp event \<rparr> 10 s of
             (Inl _, t) \<Rightarrow> (Inl (InfrastructureError ''Failed to publish event''), t)
           | (Inr _, t) \<Rightarrow> (Inr (), t)))"

definition KafkaTransport :: "'p kafka_payload \<Rightarrow> 's kafka_transport \<Rightarrow> ('s, 'p) transport" where
  "KafkaTransport kp kt = \<lparr> publish = kafka_publish kp kt \<rparr>"

lemma KafkaTransport_publish [simp]: "publish (KafkaTransport kp kt) = kafka_publish kp kt"
  by (simp add: KafkaTransport_def)

section \<open>What a consumer reads back\<close>

text \<open>
  \<open>header_value\<close> is how a consumer looks a header up: the first one with the key. \<open>parse\<close> reads a
  UUID text back.
\<close>

definition header_value :: "string \<Rightarrow> kafka_header list \<Rightarrow> string option" where
  "header_value k hs =
     (case filter (\<lambda>h. h_key h = k) hs of [] \<Rightarrow> None | h # _ \<Rightarrow> h_value h)"

lemma header_values:
  "header_value ''event_id'' (kafka_headers kp e) = Some (uuid_text kp (as_uuid (eid e)))"
  "header_value ''event_type'' (kafka_headers kp e) = Some (event_type_as_str (event_type e))"
  "header_value ''created_at'' (kafka_headers kp e) = Some (instant_text kp (created_at e))"
  "header_value ''idempotency_token'' (kafka_headers kp e) =
     map_option token_as_str (idempotency_token e)"
  by (simp_all add: header_value_def kafka_headers_def Let_def split: option.splits)

definition record_event_id :: "(string \<Rightarrow> event_id) \<Rightarrow> future_record \<Rightarrow> event_id" where
  "record_event_id parse r =
     (case header_value ''event_id'' (fr_headers r) of None \<Rightarrow> parse [] | Some x \<Rightarrow> parse x)"

text \<open>
  The producer's documentation: \<open>Ok\<close> means the broker acknowledged the record; after an error (a
  full queue, a timeout) it may or may not have been written. Then the transport keeps its contract.
\<close>

locale kafka_broker =
  fixes kp :: "'p kafka_payload"
    and kt :: "'s kafka_transport"
    and parse :: "string \<Rightarrow> event_id"
    and log :: "'s \<Rightarrow> future_record list"
  assumes id_text: "parse (uuid_text kp (as_uuid i)) = i"
    and send_ok: "send (kt_producer kt) r n s = (Inr u, t) \<Longrightarrow> log t = log s @ [r]"
    and send_err: "send (kt_producer kt) r n s = (Inl e, t) \<Longrightarrow> log t = log s \<or> log t = log s @ [r]"
begin

definition kafka_accepted :: "'s \<Rightarrow> event_id list" where
  "kafka_accepted s = map (record_event_id parse) (log s)"

lemma kafka_record_id:
  "record_event_id parse \<lparr> fr_topic = tp, fr_payload = b, fr_key = k, fr_headers = kafka_headers kp e \<rparr>
     = eid e"
  by (simp add: record_event_id_def header_values id_text)

end

sublocale kafka_broker \<subseteq> kafka: transport_contract "KafkaTransport kp kt" kafka_accepted
proof
  fix e :: "'p event" and s t :: 's and u :: unit and err
  show "publish (KafkaTransport kp kt) e s = (Inr u, t) \<Longrightarrow>
      kafka_accepted t = kafka_accepted s @ [eid e]"
    by (auto simp: kafka_publish_def kafka_accepted_def kafka_record_id
        split: sum.splits prod.splits dest!: send_ok)
  show "publish (KafkaTransport kp kt) e s = (Inl err, t) \<Longrightarrow>
      kafka_accepted t = kafka_accepted s \<or> kafka_accepted t = kafka_accepted s @ [eid e]"
    by (auto simp: kafka_publish_def kafka_accepted_def kafka_record_id
        split: sum.splits prod.splits dest!: send_err)
qed

end
