(* ===== verification/Service.thy ===== *)
theory Service
  imports Outbox_Traits
begin

text \<open>
  The producer side: \<^verbatim>\<open>idempotency/strategy.rs\<close> (how a strategy becomes a token) and
  \<^verbatim>\<open>service.rs\<close> (\<open>OutboxService::add_event\<close>). What the code reads from its surroundings, a fresh
  UUID v7 and v4 and the wall clock, is the \<open>host\<close> argument. The \<open>get_event\<close> closure is a function
  that may act on the world. A panic of \<open>expect\<close> is \<open>Panic\<close> with its message.
\<close>

section \<open>Strategies (idempotency/strategy.rs)\<close>

record host =
  now_v7 :: string
  new_v4 :: uuid
  now_utc :: instant

definition custom_without_event :: string where
  "custom_without_event = ''Strategy is Custom, but no Event context provided''"

fun invoke :: "'p idempotency_strategy \<Rightarrow> host \<Rightarrow> string option \<Rightarrow>
    ('s \<Rightarrow> 'p event option \<times> 's) \<Rightarrow> 's \<Rightarrow> string option exec \<times> 's" where
  "invoke Provided h provided_token get_event s = (Return provided_token, s)"
| "invoke (Custom f) h provided_token get_event s =
     (case get_event s of
        (Some ev, t) \<Rightarrow> (Return (Some (f ev)), t)
      | (None, t) \<Rightarrow> (Panic custom_without_event, t))"
| "invoke UuidV7 h provided_token get_event s = (Return (Some (now_v7 h)), s)"
| "invoke NoToken h provided_token get_event s = (Return None, s)"

definition is_custom :: "'p idempotency_strategy \<Rightarrow> bool" where
  "is_custom st = (case st of Custom f \<Rightarrow> True | _ \<Rightarrow> False)"

fun_cases invoke_PanicE: "invoke st h tok g s = (Panic m, t)"

lemma invoke_not_custom:
  "\<not> is_custom st \<Longrightarrow> \<exists>o'. \<forall>g s. invoke st h tok g s = (Return o', s)"
  by (cases st) (auto simp: is_custom_def)

lemma invoke_panics_iff:
  "(\<exists>m t. invoke st h tok g s = (Panic m, t)) \<longleftrightarrow> is_custom st \<and> fst (g s) = None"
  by (cases st; cases "g s") (auto simp: is_custom_def split: option.splits)

section \<open>The service (service.rs)\<close>

record ('s, 'p) outbox_service =
  sv_writer :: "('s, 'p) outbox_writer"
  sv_config :: "'p outbox_config"
  sv_idempotency_storage :: "'s idempotency_provider option"

definition OutboxService_new ::
  "('s, 'p) outbox_writer \<Rightarrow> 'p outbox_config \<Rightarrow> ('s, 'p) outbox_service" where
  "OutboxService_new w cfg =
     \<lparr> sv_writer = w, sv_config = cfg, sv_idempotency_storage = None \<rparr>"

definition OutboxService_with_idempotency ::
  "('s, 'p) outbox_writer \<Rightarrow> 'p outbox_config \<Rightarrow> 's idempotency_provider \<Rightarrow>
     ('s, 'p) outbox_service" where
  "OutboxService_with_idempotency w cfg ip =
     \<lparr> sv_writer = w, sv_config = cfg, sv_idempotency_storage = Some ip \<rparr>"

text \<open>The \<open>let\<close>-chain of \<open>add_event\<close>: \<open>True\<close> when its condition holds, that is, on a duplicate.\<close>

definition is_duplicate ::
  "'s idempotency_provider option \<Rightarrow> idempotency_token option \<Rightarrow> ('s, bool) io" where
  "is_duplicate storage i_token =
     (case storage of
        None \<Rightarrow> ret False
      | Some ip \<Rightarrow>
          (case i_token of
             None \<Rightarrow> ret False
           | Some token \<Rightarrow> and_then (try_reserve ip token) (\<lambda>reserved. ret (\<not> reserved))))"

definition new_event :: "host \<Rightarrow> string \<Rightarrow> 'p \<Rightarrow> idempotency_token option \<Rightarrow> 'p event" where
  "new_event h ty p i_token =
     Event_new (new_v4 h) (now_utc h) (EventType_new ty) (Payload_new p) i_token"

definition add_event :: "('s, 'p) outbox_service \<Rightarrow> host \<Rightarrow> string \<Rightarrow> 'p \<Rightarrow> string option \<Rightarrow>
    ('s \<Rightarrow> 'p event option \<times> 's) \<Rightarrow> 's \<Rightarrow> (outbox_error + unit) exec \<times> 's" where
  "add_event sv h ty p provided_token get_event s =
     (case invoke (idempotency_strategy (sv_config sv)) h provided_token get_event s of
        (Panic m, t) \<Rightarrow> (Panic m, t)
      | (Return raw, t) \<Rightarrow>
          (let i_token = map_option IdempotencyToken_new raw;
               (r, u) = and_then (is_duplicate (sv_idempotency_storage sv) i_token)
                 (\<lambda>dup. if dup then throw DuplicateEvent
                        else insert_event (sv_writer sv) (new_event h ty p i_token)) t
           in (Return r, u)))"

lemma is_duplicate_no_provider [simp]: "is_duplicate None tok = ret False"
  by (simp add: is_duplicate_def)

lemma is_duplicate_no_token [simp]: "is_duplicate st None = ret False"
  by (simp add: is_duplicate_def split: option.splits)

lemma is_duplicate_reserve:
  "is_duplicate (Some ip) (Some tok) = and_then (try_reserve ip tok) (\<lambda>reserved. ret (\<not> reserved))"
  by (simp add: is_duplicate_def)

lemmas add_event_simps = add_event_def Let_def and_then_def is_duplicate_reserve

text \<open>
  One equation per branch of \<open>add_event\<close> once the strategy has produced its token.
\<close>

lemma add_event_gate:
  assumes "invoke (idempotency_strategy (sv_config sv)) h tok g s = (Return raw, t)"
    and "is_duplicate (sv_idempotency_storage sv) (map_option IdempotencyToken_new raw) t = (r, u)"
  shows "add_event sv h ty p tok g s =
    (case r of
       Inl e \<Rightarrow> (Return (Inl e), u)
     | Inr True \<Rightarrow> (Return (Inl DuplicateEvent), u)
     | Inr False \<Rightarrow>
         (let (w, v) = insert_event (sv_writer sv)
                (new_event h ty p (map_option IdempotencyToken_new raw)) u
          in (Return w, v)))"
  using assms by (auto simp: add_event_simps split: sum.splits prod.splits bool.splits)

end
