(* ===== verification/Processor.thy ===== *)
theory Processor
  imports Outbox_Traits
begin

text \<open>
  \<^verbatim>\<open>processor.rs\<close>: one batch of the worker. \<open>process_pending_events\<close> fetches, publishes event by
  event, records each outcome in the dead-letter heap and marks what was published as \<open>Sent\<close>.

  The cargo features are arguments: the heap is \<open>None\<close> when \<open>dlq\<close> is off, the metrics recorder
  is \<open>None\<close> when \<open>metrics\<close> is off. The \<open>metrics\<close> crate is outside the repository: a recorder is
  any pair of functions on the world, the counter taking its name, labels and increment, the
  histogram its name and labels (it reads the elapsed time from the world).
\<close>

type_synonym labels = "(string \<times> string) list"

record 's metrics =
  counter :: "string \<Rightarrow> labels \<Rightarrow> nat \<Rightarrow> 's \<Rightarrow> 's"
  histogram :: "string \<Rightarrow> labels \<Rightarrow> 's \<Rightarrow> 's"

record ('s, 'p) outbox_processor =
  pr_storage :: "('s, 'p) outbox_storage"
  pr_publisher :: "('s, 'p) transport"
  pr_config :: "'p outbox_config"

definition OutboxProcessor_new :: "('s, 'p) outbox_storage \<Rightarrow> ('s, 'p) transport \<Rightarrow>
    'p outbox_config \<Rightarrow> ('s, 'p) outbox_processor" where
  "OutboxProcessor_new st tr cfg = \<lparr> pr_storage = st, pr_publisher = tr, pr_config = cfg \<rparr>"

definition emit_success :: "'s metrics option \<Rightarrow> string \<Rightarrow> 's \<Rightarrow> 's" where
  "emit_success m ty s =
     (case m of
        None \<Rightarrow> s
      | Some r \<Rightarrow>
          histogram r ''outbox.publish_duration_seconds'' [(''event_type'', ty)]
            (counter r ''outbox.events_total''
               [(''status'', ''success''), (''event_type'', ty)] 1 s))"

definition emit_error :: "'s metrics option \<Rightarrow> string \<Rightarrow> 's \<Rightarrow> 's" where
  "emit_error m ty s =
     (case m of
        None \<Rightarrow> s
      | Some r \<Rightarrow>
          histogram r ''outbox.publish_duration_seconds''
            [(''status'', ''error''), (''event_type'', ty)]
            (counter r ''outbox.events_total''
               [(''status'', ''error''), (''event_type'', ty)] 1 s))"

definition note_success :: "'s dlq_heap option \<Rightarrow> event_id \<Rightarrow> ('s, unit) io" where
  "note_success heap i = (case heap of None \<Rightarrow> ret () | Some h \<Rightarrow> record_success h i)"

definition note_failure :: "'s dlq_heap option \<Rightarrow> event_id \<Rightarrow> ('s, unit) io" where
  "note_failure heap i = (case heap of None \<Rightarrow> ret () | Some h \<Rightarrow> record_failure h i)"

text \<open>
  The \<open>for\<close> loop of \<open>event_publish\<close>. Its accumulator is \<open>success_ids\<close>; the loop returns it, or
  the first error of the heap (the \<open>?\<close> of \<open>record_success\<close> and \<open>record_failure\<close>).
\<close>

fun publish_loop :: "('s, 'p) transport \<Rightarrow> 's dlq_heap option \<Rightarrow> 's metrics option \<Rightarrow>
    'p event list \<Rightarrow> event_id list \<Rightarrow> ('s, event_id list) io" where
  "publish_loop tr heap m [] success_ids s = (Inr success_ids, s)"
| "publish_loop tr heap m (event # events) success_ids s =
     (let ty = display_event_type (event_type event) in
      case publish tr event s of
        (Inr _, t) \<Rightarrow>
          (case note_success heap (eid event) t of
             (Inl e, u) \<Rightarrow> (Inl e, u)
           | (Inr _, u) \<Rightarrow>
               publish_loop tr heap m events (success_ids @ [eid event]) (emit_success m ty u))
      | (Inl _, t) \<Rightarrow>
          (case note_failure heap (eid event) t of
             (Inl e, u) \<Rightarrow> (Inl e, u)
           | (Inr _, u) \<Rightarrow> publish_loop tr heap m events success_ids (emit_error m ty u)))"

definition event_publish :: "('s, 'p) outbox_processor \<Rightarrow> 's dlq_heap option \<Rightarrow>
    's metrics option \<Rightarrow> 'p event list \<Rightarrow> ('s, unit) io" where
  "event_publish pr heap m events =
     and_then (publish_loop (pr_publisher pr) heap m events [])
       (\<lambda>success_ids.
          if success_ids \<noteq> [] then update_status (pr_storage pr) success_ids Sent
          else ret ())"

definition process_pending_events :: "('s, 'p) outbox_processor \<Rightarrow> 's dlq_heap option \<Rightarrow>
    's metrics option \<Rightarrow> ('s, nat) io" where
  "process_pending_events pr heap m =
     and_then (fetch_next_to_process (pr_storage pr) (batch_size (pr_config pr)))
       (\<lambda>events.
          if events = [] then ret 0
          else and_then (event_publish pr heap m events) (\<lambda>_. ret (length events)))"


lemma OutboxProcessor_new_simps [simp]:
  "pr_storage (OutboxProcessor_new st tr cfg) = st"
  "pr_publisher (OutboxProcessor_new st tr cfg) = tr"
  "pr_config (OutboxProcessor_new st tr cfg) = cfg"
  by (simp_all add: OutboxProcessor_new_def)

lemma emit_None [simp]: "emit_success None ty s = s" "emit_error None ty s = s"
  by (simp_all add: emit_success_def emit_error_def)

lemma note_None [simp]: "note_success None i = ret ()" "note_failure None i = ret ()"
  by (simp_all add: note_success_def note_failure_def)

lemma note_Some [simp]:
  "note_success (Some h) i = record_success h i" "note_failure (Some h) i = record_failure h i"
  by (simp_all add: note_success_def note_failure_def)

section \<open>A batch preserves what its collaborators preserve\<close>

text \<open>
  The calls a batch makes, as a relation between worlds: every predicate that each of them keeps is
  kept by the loop, whatever it returns.
\<close>

definition publish_steps_keep :: "('s, 'p) transport \<Rightarrow> 's dlq_heap option \<Rightarrow> 's metrics option \<Rightarrow>
    ('s \<Rightarrow> 's \<Rightarrow> bool) \<Rightarrow> bool" where
  "publish_steps_keep tr heap m R \<longleftrightarrow>
     (\<forall>e s r t. publish tr e s = (r, t) \<longrightarrow> R s t) \<and>
     (\<forall>i s r t. note_success heap i s = (r, t) \<longrightarrow> R s t) \<and>
     (\<forall>i s r t. note_failure heap i s = (r, t) \<longrightarrow> R s t) \<and>
     (\<forall>ty s. R s (emit_success m ty s)) \<and> (\<forall>ty s. R s (emit_error m ty s))"

lemma publish_loop_keeps:
  assumes keep: "publish_steps_keep tr heap m R"
    and refl: "\<And>s. R s s" and trans: "\<And>s t u. R s t \<Longrightarrow> R t u \<Longrightarrow> R s u"
    and run: "publish_loop tr heap m evs acc s = (r, t)"
  shows "R s t"
  using run
proof (induction evs arbitrary: acc s)
  case Nil
  then show ?case using refl by simp
next
  case (Cons e evs)
  obtain x s1 where p: "publish tr e s = (x, s1)" by fastforce
  with keep have R1: "R s s1" by (auto simp: publish_steps_keep_def)
  show ?case
  proof (cases x)
    case (Inl err)
    obtain y s2 where n: "note_failure heap (eid e) s1 = (y, s2)" by fastforce
    with keep have R2: "R s1 s2" by (auto simp: publish_steps_keep_def)
    from keep have R3: "R s2 (emit_error m (display_event_type (event_type e)) s2)"
      by (auto simp: publish_steps_keep_def)
    show ?thesis
      using Cons.prems Cons.IH trans[OF trans[OF R1 R2] R3] trans[OF R1 R2] trans p n Inl
      by (fastforce simp: Let_def split: sum.splits)
  next
    case (Inr u)
    obtain y s2 where n: "note_success heap (eid e) s1 = (y, s2)" by fastforce
    with keep have R2: "R s1 s2" by (auto simp: publish_steps_keep_def)
    from keep have R3: "R s2 (emit_success m (display_event_type (event_type e)) s2)"
      by (auto simp: publish_steps_keep_def)
    show ?thesis
      using Cons.prems Cons.IH trans[OF trans[OF R1 R2] R3] trans[OF R1 R2] trans p n Inr
      by (fastforce simp: Let_def split: sum.splits)
  qed
qed

lemma publish_loop_ids:
  assumes "publish_loop tr heap m evs acc s = (Inr ids, t)"
  shows "\<exists>new. ids = acc @ new \<and> set new \<subseteq> eid ` set evs \<and> length new \<le> length evs"
  using assms
proof (induction evs arbitrary: acc s)
  case Nil
  then show ?case by simp
next
  case (Cons e evs)
  from Cons.prems obtain acc' s' where
    "publish_loop tr heap m evs acc' s' = (Inr ids, t)" and "acc' = acc \<or> acc' = acc @ [eid e]"
    by (auto simp: Let_def split: sum.splits prod.splits)
  with Cons.IH show ?case by fastforce
qed

lemma process_pending_events_cases:
  assumes "process_pending_events pr heap m s = (r, t)"
  obtains (fetch_failed) e where
      "fetch_next_to_process (pr_storage pr) (batch_size (pr_config pr)) s = (Inl e, t)" "r = Inl e"
  | (empty)
      "fetch_next_to_process (pr_storage pr) (batch_size (pr_config pr)) s = (Inr [], t)" "r = Inr 0"
  | (heap_failed) evs s1 e where
      "fetch_next_to_process (pr_storage pr) (batch_size (pr_config pr)) s = (Inr evs, s1)" "evs \<noteq> []"
      "publish_loop (pr_publisher pr) heap m evs [] s1 = (Inl e, t)" "r = Inl e"
  | (none_sent) evs s1 where
      "fetch_next_to_process (pr_storage pr) (batch_size (pr_config pr)) s = (Inr evs, s1)" "evs \<noteq> []"
      "publish_loop (pr_publisher pr) heap m evs [] s1 = (Inr [], t)" "r = Inr (length evs)"
  | (marked) evs s1 ids s2 q where
      "fetch_next_to_process (pr_storage pr) (batch_size (pr_config pr)) s = (Inr evs, s1)" "evs \<noteq> []"
      "publish_loop (pr_publisher pr) heap m evs [] s1 = (Inr ids, s2)" "ids \<noteq> []"
      "update_status (pr_storage pr) ids Sent s2 = (q, t)"
      "r = (case q of Inl e \<Rightarrow> Inl e | Inr _ \<Rightarrow> Inr (length evs))"
proof -
  obtain x s1 where f: "fetch_next_to_process (pr_storage pr) (batch_size (pr_config pr)) s = (x, s1)"
    by fastforce
  show thesis
  proof (cases x)
    case (Inl e)
    with f assms fetch_failed show thesis by (simp add: process_pending_events_def and_then_def)
  next
    case (Inr evs)
    show thesis
    proof (cases "evs = []")
      case True
      with Inr f assms empty show thesis by (simp add: process_pending_events_def and_then_def)
    next
      case False
      obtain y s2 where l: "publish_loop (pr_publisher pr) heap m evs [] s1 = (y, s2)" by fastforce
      show thesis
      proof (cases y)
        case (Inl e)
        with \<open>x = Inr evs\<close> False f l assms heap_failed show thesis
          by (auto simp: process_pending_events_def event_publish_def and_then_def)
      next
        case (Inr ids)
        note ids = Inr
        show thesis
        proof (cases "ids = []")
          case True
          with ids \<open>x = Inr evs\<close> False f l assms none_sent show thesis
            by (auto simp: process_pending_events_def event_publish_def and_then_def)
        next
          case ne: False
          obtain q u where u: "update_status (pr_storage pr) ids Sent s2 = (q, u)" by fastforce
          have "(r, t) = (case q of Inl e \<Rightarrow> Inl e | Inr _ \<Rightarrow> Inr (length evs), u)"
            using ids \<open>x = Inr evs\<close> False ne f l u assms
            by (cases q) (auto simp: process_pending_events_def event_publish_def and_then_def)
          with marked[OF _ False _ ne] ids \<open>x = Inr evs\<close> f l u show thesis by auto
        qed
      qed
    qed
  qed
qed

section \<open>The worker's contract\<close>

text \<open>
  The storage and the transport keep their contracts, no call but a publish touches the broker's
  log, and neither publishing nor bookkeeping touches the tables.
\<close>

locale worker_contract = storage_contract st status_of dead sinv + transport_contract tr accepted
  for st :: "('s, 'p) outbox_storage"
    and status_of :: "'s \<Rightarrow> event_id \<Rightarrow> event_status option"
    and dead :: "'s \<Rightarrow> event_id set"
    and sinv :: "'s \<Rightarrow> bool"
    and tr :: "('s, 'p) transport"
    and accepted :: "'s \<Rightarrow> event_id list" +
  fixes heap :: "'s dlq_heap option"
    and m :: "'s metrics option"
  assumes batch_frame:
    "publish_steps_keep tr heap m
       (\<lambda>s t. sinv t = sinv s \<and> status_of t = status_of s \<and> dead t = dead s)"
    and note_log:
    "note_success heap i s = (r, t) \<Longrightarrow> accepted t = accepted s"
    "note_failure heap i s = (r, t) \<Longrightarrow> accepted t = accepted s"
    "accepted (emit_success m ty s) = accepted s"
    "accepted (emit_error m ty s) = accepted s"
    and storage_log:
    "fetch_next_to_process st l s = (r1, t) \<Longrightarrow> accepted t = accepted s"
    "update_status st ids x s = (r2, t) \<Longrightarrow> accepted t = accepted s"
begin

lemma step_frames:
  "publish tr e s = (r, t) \<Longrightarrow> sinv t = sinv s \<and> status_of t = status_of s \<and> dead t = dead s"
  "note_success heap i s = (q, t) \<Longrightarrow> sinv t = sinv s \<and> status_of t = status_of s \<and> dead t = dead s"
  "note_failure heap i s = (q, t) \<Longrightarrow> sinv t = sinv s \<and> status_of t = status_of s \<and> dead t = dead s"
  "sinv (emit_success m ty s) = sinv s \<and> status_of (emit_success m ty s) = status_of s \<and>
     dead (emit_success m ty s) = dead s"
  "sinv (emit_error m ty s) = sinv s \<and> status_of (emit_error m ty s) = status_of s \<and>
     dead (emit_error m ty s) = dead s"
  using batch_frame unfolding publish_steps_keep_def by blast+

lemma loop_frame:
  assumes "publish_loop tr heap m evs acc s = (r, t)"
  shows "sinv t = sinv s \<and> status_of t = status_of s \<and> dead t = dead s"
  by (rule publish_loop_keeps[OF batch_frame _ _ assms]) auto

lemma loop_log:
  assumes "publish_loop tr heap m evs acc s = (r, t)"
  shows "\<exists>new. accepted t = accepted s @ new \<and> subseq new (map eid evs) \<and>
    (\<forall>ids. r = Inr ids \<longrightarrow> set ids \<subseteq> set acc \<union> set new)"
  using assms
proof (induction evs arbitrary: acc s)
  case Nil
  then show ?case by auto
next
  case (Cons e evs)
  obtain x s1 where p: "publish tr e s = (x, s1)" by fastforce
  show ?case
  proof (cases x)
    case (Inl err)
    obtain y s2 where n: "note_failure heap (eid e) s1 = (y, s2)" by fastforce
    have log: "accepted s2 = accepted s \<or> accepted s2 = accepted s @ [eid e]"
      using publish_err p Inl note_log(2)[OF n] by auto
    show ?thesis
    proof (cases y)
      case (Inl e')
      with Cons.prems p n \<open>x = Inl err\<close> have "t = s2" "r = Inl e'" by (simp_all add: Let_def)
      with log show ?thesis by auto
    next
      case (Inr u)
      with Cons.prems p n \<open>x = Inl err\<close> have
        "publish_loop tr heap m evs acc (emit_error m (display_event_type (event_type e)) s2) = (r, t)"
        by (simp add: Let_def)
      from Cons.IH[OF this] log show ?thesis unfolding note_log(4) by fastforce
    qed
  next
    case (Inr u)
    obtain y s2 where n: "note_success heap (eid e) s1 = (y, s2)" by fastforce
    have log: "accepted s2 = accepted s @ [eid e]"
      using publish_ok p Inr note_log(1)[OF n] by auto
    show ?thesis
    proof (cases y)
      case (Inl e')
      with Cons.prems p n \<open>x = Inr u\<close> have "t = s2" "r = Inl e'" by (simp_all add: Let_def)
      with log show ?thesis by auto
    next
      case (Inr u')
      with Cons.prems p n \<open>x = Inr u\<close> have
        "publish_loop tr heap m evs (acc @ [eid e])
          (emit_success m (display_event_type (event_type e)) s2) = (r, t)"
        by (simp add: Let_def)
      from Cons.IH[OF this] log show ?thesis unfolding note_log(3) by fastforce
    qed
  qed
qed

lemmas batch_cases [consumes 1, case_names fetch_failed empty heap_failed none_sent marked] =
  process_pending_events_cases[of "OutboxProcessor_new st tr cfg" heap m for cfg,
    unfolded OutboxProcessor_new_simps]

text \<open>
  Safety of one batch, whatever fails in it: rows marked \<open>Sent\<close> are in the broker's log, and no
  row moves back down its lifecycle or disappears.
\<close>

lemma batch_sent_accepted:
  assumes inv: "sinv s" and sent: "\<forall>i. status_of s i = Some Sent \<longrightarrow> i \<in> set (accepted s)"
    and run: "process_pending_events (OutboxProcessor_new st tr cfg) heap m s = (r, t)"
  shows "sinv t \<and> (\<forall>i. status_of t i = Some Sent \<longrightarrow> i \<in> set (accepted t))"
proof -
  have fetched: "sinv s1 \<and> accepted s1 = accepted s \<and>
      (\<forall>i. status_of s1 i = Some Sent \<longrightarrow> status_of s i = Some Sent)"
    if "fetch_next_to_process st l s = (q, s1)" for l q s1
    using fetch_sent[OF inv that] storage_log(1)[OF that] by blast
  have looped: "sinv s2 \<and> (\<forall>i. status_of s2 i = Some Sent \<longrightarrow> i \<in> set (accepted s2)) \<and>
      (\<forall>ids. x = Inr ids \<longrightarrow> set ids \<subseteq> set (accepted s2))"
    if "fetch_next_to_process st l s = (q, s1)" and "publish_loop tr heap m evs [] s1 = (x, s2)"
    for l q s1 evs x s2
    using fetched[OF that(1)] loop_frame[OF that(2)] loop_log[OF that(2)] sent by fastforce
  show ?thesis
    using run
  proof (cases rule: batch_cases)
    case (marked evs s1 ids s2 q)
    note l = looped[OF marked(1,3)]
    have "sinv t \<and> accepted t = accepted s2 \<and>
      (\<forall>i. status_of t i = Some Sent \<longrightarrow> status_of s2 i = Some Sent \<or> i \<in> set ids)"
      using update_sent[OF _ marked(5)] storage_log(2)[OF marked(5)] l by blast
    with l show ?thesis by auto
  qed (use fetched looped sent in auto)+
qed

lemma batch_forward:
  assumes inv: "sinv s"
    and run: "process_pending_events (OutboxProcessor_new st tr cfg) heap m s = (r, t)" and row: "status_of s i = Some x"
  shows "\<exists>y. status_of t i = Some y \<and> x \<le> y"
proof -
  have fetched: "sinv s1 \<and> (\<exists>y. status_of s1 i = Some y \<and> x \<le> y)"
    if "fetch_next_to_process st l s = (q, s1)" for l q s1
    using fetch_sent[OF inv that] fetch_forward[OF inv that row] by blast
  have looped: "sinv s2 \<and> (\<exists>y. status_of s2 i = Some y \<and> x \<le> y)"
    if "fetch_next_to_process st l s = (q, s1)" and "publish_loop tr heap m evs [] s1 = (z, s2)"
    for l q s1 evs z s2
    using fetched[OF that(1)] loop_frame[OF that(2)] by auto
  show ?thesis
    using run
  proof (cases rule: batch_cases)
    case (marked evs s1 ids s2 q)
    from looped[OF marked(1,3)] obtain y where
      y: "sinv s2" "status_of s2 i = Some y" "x \<le> y" by blast
    from update_sent_forward[OF y(1) marked(5) y(2)] y(3) show ?thesis by fastforce
  qed (use fetched looped in blast)+
qed

text \<open>A successful batch, exactly: which rows changed and how.\<close>

lemma batch_ok:
  assumes inv: "sinv s"
    and run: "process_pending_events (OutboxProcessor_new st tr cfg) heap m s = (Inr n, t)"
  obtains ids ok new where "card ids = n" and "n \<le> unat (batch_size cfg)"
    and "ok \<subseteq> set new" and "set new \<subseteq> ids" and "distinct new" and "accepted t = accepted s @ new"
    and "\<forall>i \<in> ids. status_of s i \<in> {Some Pending, Some Processing}"
    and "status_of t = (\<lambda>i. if i \<in> ok then Some Sent else if i \<in> ids then Some Processing else status_of s i)"
  using run
proof (cases rule: batch_cases)
  case empty
  with fetch_ok[OF inv, of "batch_size cfg" "[]" t] storage_log(1)
    that[of "{}" "{}" "[]"] show thesis by (auto cong: if_cong)
next
  case (none_sent evs s1)
  note f = fetch_ok[OF inv none_sent(1)]
  from loop_log[OF none_sent(3)] obtain new where
    new: "accepted t = accepted s1 @ new" and sub: "subseq new (map eid evs)" by blast
  have set_new: "set new \<subseteq> eid ` set evs" using subseq_subset[OF sub] by simp
  have dist_new: "distinct new" using subseq_distinct[OF sub] f by blast
  have "card (eid ` set evs) = n"
    using f none_sent(4) distinct_card[of "map eid evs"] by simp
  then show thesis
    using that[of "eid ` set evs" "{}" new] f new set_new dist_new loop_frame[OF none_sent(3)]
      storage_log(1)[OF none_sent(1)] none_sent(4) by auto
next
  case (marked evs s1 ids s2 q)
  note f = fetch_ok[OF inv marked(1)]
  note frame = loop_frame[OF marked(3)]
  from loop_log[OF marked(3)] obtain new where
    new: "accepted s2 = accepted s1 @ new" "set ids \<subseteq> set new" and sub: "subseq new (map eid evs)"
    by auto
  have set_new: "set new \<subseteq> eid ` set evs" using subseq_subset[OF sub] by simp
  have dist_new: "distinct new" using subseq_distinct[OF sub] f by blast
  from marked(6) obtain u where q: "q = Inr u" and n: "n = length evs" by (cases q) auto
  have card: "card (eid ` set evs) = n" using f n distinct_card[of "map eid evs"] by simp
  have "status_of t = (\<lambda>i. if i \<in> set ids then map_option (\<lambda>_. Sent) (status_of s2 i) else status_of s2 i)"
    using update_ok[of s2 ids Sent u t] marked(5) frame f unfolding q by blast
  then have "status_of t = (\<lambda>i. if i \<in> set ids then Some Sent
      else if i \<in> eid ` set evs then Some Processing else status_of s i)"
    using subsetD[OF subset_trans[OF new(2) set_new]] frame f by (auto intro!: ext)
  then show thesis
    using that[of "eid ` set evs" "set ids" new] card n f new set_new dist_new
      storage_log(1)[OF marked(1)] storage_log(2)[OF marked(5)] by auto
qed simp_all

end

end
