(* ===== verification/Select_Loop.thy ===== *)
theory Select_Loop
  imports Outbox_Types
begin

text \<open>
  The shape shared by the three long-running tasks (\<open>GarbageCollector::run\<close>,
  \<open>DlqProcessor::run\<close>, \<open>OutboxManager::run\<close>): a \<open>loop\<close> around a \<open>tokio::select!\<close>.

  Which arm of a \<open>select!\<close> completes, and what other tasks do to the world before it does, is decided
  by the runtime. A schedule is the list of these decisions: per turn, the interference of the
  other tasks while the loop waits, and the arm that completed. A turn is what the code does for
  an arm; \<open>None\<close> is a turn that never comes back. \<open>select_loop\<close> gives \<open>None\<close> when a turn
  diverges, \<open>Some (None, s)\<close> when the schedule is used up and the task is still waiting, and
  \<open>Some (Some r, s)\<close> when the task has returned \<open>r\<close>.

  The shutdown channel belongs to \<open>tokio::sync::watch\<close>: \<open>borrow\<close> reads the watched value, and
  \<open>channel_closed\<close> is \<open>has_changed().is_err()\<close>, that is, the sender is gone.
\<close>

datatype flow = Continue | Exit

type_synonym ('w, 's) schedule = "(('s \<Rightarrow> 's) \<times> 'w) list"

record 's shutdown_rx =
  borrow :: "'s \<Rightarrow> bool"
  channel_closed :: "'s \<Rightarrow> bool"

fun select_loop :: "('w \<Rightarrow> 's \<Rightarrow> (flow \<times> 's) option) \<Rightarrow> ('w, 's) schedule \<Rightarrow> 's \<Rightarrow>
    ((outbox_error + unit) option \<times> 's) option" where
  "select_loop turn [] s = Some (None, s)"
| "select_loop turn ((others, arm) # rest) s =
     (case turn arm (others s) of
        None \<Rightarrow> None
      | Some (Exit, t) \<Rightarrow> Some (Some (Inr ()), t)
      | Some (Continue, t) \<Rightarrow> select_loop turn rest t)"

text \<open>The body of the \<open>changed()\<close> arm: leave on a closed channel, leave on \<open>true\<close>, else go on.\<close>

definition changed_arm :: "'s shutdown_rx \<Rightarrow> 's \<Rightarrow> flow" where
  "changed_arm rx s = (if channel_closed rx s then Exit else if borrow rx s then Exit else Continue)"

definition stop_requested :: "'s shutdown_rx \<Rightarrow> 's \<Rightarrow> bool" where
  "stop_requested rx s \<longleftrightarrow> channel_closed rx s \<or> borrow rx s"

text \<open>
  Each task makes its \<open>tokio::time::interval\<close> before its loop; that function panics when the period is
  zero, which ends the task before it has done anything.
\<close>

definition on_interval :: "u64 \<Rightarrow> 'a \<Rightarrow> 'a exec" where
  "on_interval secs loop_run =
     (if secs = 0 then Panic ''tokio::time::interval: the period is zero'' else Return loop_run)"

lemma on_interval_Return [simp]: "on_interval d x = Return y \<longleftrightarrow> d \<noteq> 0 \<and> y = x"
  by (auto simp: on_interval_def)

lemma on_interval_Panic: "(\<exists>m. on_interval d x = Panic m) \<longleftrightarrow> d = 0"
  by (simp add: on_interval_def)

lemma on_interval_positive: "d \<noteq> 0 \<Longrightarrow> on_interval d x = Return x"
  by simp

lemma changed_arm_Exit: "changed_arm rx s = Exit \<longleftrightarrow> stop_requested rx s"
  by (simp add: changed_arm_def stop_requested_def)

lemma select_loop_no_error: "select_loop turn ws s = Some (Some r, t) \<Longrightarrow> r = Inr ()"
  by (induction turn ws s rule: select_loop.induct)
    (auto split: option.splits prod.splits flow.splits)

lemma select_loop_append:
  "select_loop turn (us @ vs) s =
     (case select_loop turn us s of
        None \<Rightarrow> None
      | Some (Some r, t) \<Rightarrow> Some (Some r, t)
      | Some (None, t) \<Rightarrow> select_loop turn vs t)"
  by (induction turn us s rule: select_loop.induct)
    (auto split: option.splits prod.splits flow.splits)

text \<open>
  What a task that honours the shutdown channel promises: the \<open>changed\<close> arm leaves the loop when
  a stop is requested, without touching the world.
\<close>

locale shutdown_loop =
  fixes turn :: "'w \<Rightarrow> 's \<Rightarrow> (flow \<times> 's) option"
    and changed :: 'w
    and stop :: "'s \<Rightarrow> bool"
  assumes stops: "stop s \<Longrightarrow> turn changed s = Some (Exit, s)"
begin

lemma returns_on_stop:
  assumes "select_loop turn us s = Some (None, t)" and "stop (others t)"
  shows "select_loop turn (us @ (others, changed) # vs) s = Some (Some (Inr ()), others t)"
  using assms by (simp add: select_loop_append stops)

end

text \<open>
  A background task on a timer: every turn comes back, and nothing but a stop request on the
  \<open>changed\<close> arm ends it. In particular no failure of a collaborator does.
\<close>

locale timer_loop = shutdown_loop +
  assumes total: "turn arm s \<noteq> None"
    and only_stops: "turn arm s = Some (Exit, t) \<Longrightarrow> arm = changed \<and> stop s \<and> t = s"
begin

lemma never_diverges: "select_loop turn ws s \<noteq> None"
proof (induction ws arbitrary: s)
  case Nil
  then show ?case by simp
next
  case (Cons w ws)
  obtain others arm where w: "w = (others, arm)" by fastforce
  from total[of arm "others s"] obtain f t where "turn arm (others s) = Some (f, t)" by fastforce
  with Cons w show ?case by (cases f) auto
qed

lemma runs_until_stop:
  assumes "\<forall>(others, arm) \<in> set ws. arm = changed \<longrightarrow> (\<forall>u. \<not> stop (others u))"
  shows "\<exists>t. select_loop turn ws s = Some (None, t)"
  using assms
proof (induction ws arbitrary: s)
  case Nil
  then show ?case by simp
next
  case (Cons w ws)
  obtain others arm where w: "w = (others, arm)" by fastforce
  from total[of arm "others s"] obtain f t where t: "turn arm (others s) = Some (f, t)" by fastforce
  have "f = Continue"
  proof (rule ccontr)
    assume "f \<noteq> Continue"
    with t have "turn arm (others s) = Some (Exit, t)" by (cases f) auto
    from only_stops[OF this] Cons.prems w show False by auto
  qed
  with Cons w t show ?case by simp
qed

lemma returned_on_stop:
  assumes "select_loop turn ws s = Some (Some r, t)"
  shows "stop t \<and> (\<exists>others. (others, changed) \<in> set ws)"
  using assms
proof (induction ws arbitrary: s)
  case Nil
  then show ?case by simp
next
  case (Cons w ws)
  obtain others arm where w: "w = (others, arm)" by fastforce
  from total[of arm "others s"] obtain f u where u: "turn arm (others s) = Some (f, u)" by fastforce
  show ?case
  proof (cases f)
    case Continue
    with Cons u w show ?thesis by fastforce
  next
    case Exit
    with u only_stops have "arm = changed" "stop u" by auto
    with Cons.prems u w Exit show ?thesis by auto
  qed
qed

end

end
