(* ===== verification/Background_Tasks.thy ===== *)
theory Background_Tasks
  imports Outbox_Traits Select_Loop
begin

text \<open>
  The two background tasks of the worker: the garbage collector (\<^verbatim>\<open>gc.rs\<close>) and the dead-letter
  reaper (\<^verbatim>\<open>dlq/processor.rs\<close>). Both are select loops with a timer arm and a shutdown arm.
\<close>

datatype timer_arm = Tick | Shutdown_changed

section \<open>Garbage collector (gc.rs)\<close>

record ('s, 'p) garbage_collector =
  gc_storage :: "('s, 'p) outbox_storage"

definition GarbageCollector_new :: "('s, 'p) outbox_storage \<Rightarrow> ('s, 'p) garbage_collector" where
  "GarbageCollector_new st = \<lparr> gc_storage = st \<rparr>"

definition collect_garbage :: "('s, 'p) garbage_collector \<Rightarrow> ('s, unit) io" where
  "collect_garbage gc = delete_garbage (gc_storage gc)"

fun gc_turn :: "('s, 'p) garbage_collector \<Rightarrow> 's shutdown_rx \<Rightarrow> timer_arm \<Rightarrow> 's \<Rightarrow>
    (flow \<times> 's) option" where
  "gc_turn gc rx Tick s = (case collect_garbage gc s of (_, t) \<Rightarrow> Some (Continue, t))"
| "gc_turn gc rx Shutdown_changed s = Some (changed_arm rx s, s)"

definition gc_run :: "('s, 'p) garbage_collector \<Rightarrow> u64 \<Rightarrow> 's shutdown_rx \<Rightarrow>
    (timer_arm, 's) schedule \<Rightarrow> 's \<Rightarrow> ((outbox_error + unit) option \<times> 's) option exec" where
  "gc_run gc gc_interval rx ws s = on_interval gc_interval (select_loop (gc_turn gc rx) ws s)"

interpretation gc: timer_loop "gc_turn gc rx" Shutdown_changed "stop_requested rx"
  for gc :: "('s, 'p) garbage_collector" and rx :: "'s shutdown_rx"
proof
  fix s t :: 's and arm
  show "stop_requested rx s \<Longrightarrow> gc_turn gc rx Shutdown_changed s = Some (Exit, s)"
    by (simp add: changed_arm_Exit)
  show "gc_turn gc rx arm s \<noteq> None" by (cases arm) (auto split: prod.splits)
  show "gc_turn gc rx arm s = Some (Exit, t) \<Longrightarrow>
      arm = Shutdown_changed \<and> stop_requested rx s \<and> t = s"
    by (cases arm) (auto simp: changed_arm_Exit split: prod.splits)
qed

section \<open>Dead-letter reaper (dlq/processor.rs)\<close>

record ('s, 'p) dlq_processor =
  dp_heap :: "'s dlq_heap"
  dp_storage :: "('s, 'p) outbox_storage"
  dp_config :: "'p outbox_config"
  dp_shutdown_rx :: "'s shutdown_rx"

definition DlqProcessor_new :: "'s dlq_heap \<Rightarrow> ('s, 'p) outbox_storage \<Rightarrow> 'p outbox_config \<Rightarrow>
    's shutdown_rx \<Rightarrow> ('s, 'p) dlq_processor" where
  "DlqProcessor_new hp st cfg rx =
     \<lparr> dp_heap = hp, dp_storage = st, dp_config = cfg, dp_shutdown_rx = rx \<rparr>"

text \<open>The body of the tick arm: both errors are logged and dropped.\<close>

definition dlq_tick :: "('s, 'p) dlq_processor \<Rightarrow> 's \<Rightarrow> 's" where
  "dlq_tick dp s =
     (case drain_exceeded (dp_heap dp) (dlq_threshold (dp_config dp)) s of
        (Inl _, t) \<Rightarrow> t
      | (Inr entries, t) \<Rightarrow>
          if entries = [] then t
          else (case quarantine_events (dp_storage dp) entries t of (_, u) \<Rightarrow> u))"

fun dlq_turn :: "('s, 'p) dlq_processor \<Rightarrow> timer_arm \<Rightarrow> 's \<Rightarrow> (flow \<times> 's) option" where
  "dlq_turn dp Shutdown_changed s = Some (changed_arm (dp_shutdown_rx dp) s, s)"
| "dlq_turn dp Tick s = Some (Continue, dlq_tick dp s)"

definition dlq_run :: "('s, 'p) dlq_processor \<Rightarrow> (timer_arm, 's) schedule \<Rightarrow> 's \<Rightarrow>
    ((outbox_error + unit) option \<times> 's) option exec" where
  "dlq_run dp ws s =
     on_interval (dlq_interval_secs (dp_config dp)) (select_loop (dlq_turn dp) ws s)"

interpretation dlq: timer_loop "dlq_turn dp" Shutdown_changed "stop_requested (dp_shutdown_rx dp)"
  for dp :: "('s, 'p) dlq_processor"
proof
  fix s t :: 's and arm
  show "stop_requested (dp_shutdown_rx dp) s \<Longrightarrow> dlq_turn dp Shutdown_changed s = Some (Exit, s)"
    by (simp add: changed_arm_Exit)
  show "dlq_turn dp arm s \<noteq> None" by (cases arm) auto
  show "dlq_turn dp arm s = Some (Exit, t) \<Longrightarrow>
      arm = Shutdown_changed \<and> stop_requested (dp_shutdown_rx dp) s \<and> t = s"
    by (cases arm) (auto simp: changed_arm_Exit)
qed

section \<open>What a reaper tick does\<close>

text \<open>
  The tick, under the contracts of its heap and its storage: the heap does not touch the tables
  and the tables do not touch the counters.
\<close>

locale reaper_contract = storage_contract st status_of dead sinv + dlq_heap_contract hp counts hinv
  for st :: "('s, 'p) outbox_storage"
    and status_of :: "'s \<Rightarrow> event_id \<Rightarrow> event_status option"
    and dead :: "'s \<Rightarrow> event_id set"
    and sinv :: "'s \<Rightarrow> bool"
    and hp :: "'s dlq_heap"
    and counts :: "'s \<Rightarrow> event_id \<Rightarrow> nat"
    and hinv :: "'s \<Rightarrow> bool" +
  assumes drain_frame: "drain_exceeded hp thr s = (r1, t) \<Longrightarrow>
      sinv t = sinv s \<and> status_of t = status_of s \<and> dead t = dead s"
    and quarantine_frame: "quarantine_events st es s = (r2, t) \<Longrightarrow>
      hinv t = hinv s \<and> counts t = counts s"
begin

definition over :: "u32 \<Rightarrow> 's \<Rightarrow> event_id set" where
  "over thr s = {i. 0 < counts s i \<and> unat thr \<le> counts s i}"

lemma tick_cases:
  assumes inv: "sinv s" "hinv s" and thr: "thr = dlq_threshold cfg"
    and run: "dlq_tick (DlqProcessor_new hp st cfg rx) s = t"
  obtains (drain_failed) e where "drain_exceeded hp thr s = (Inl e, t)" and "status_of t = status_of s"
    and "dead t = dead s"
  | (drained) "counts t = (\<lambda>i. if unat thr \<le> counts s i then 0 else counts s i)" and "hinv t"
    and "status_of t = status_of s \<and> dead t = dead s \<or>
      status_of t = (\<lambda>i. if i \<in> over thr s then None else status_of s i) \<and>
      dead t = dead s \<union> {i \<in> over thr s. status_of s i \<noteq> None}"
proof -
  obtain r u where d: "drain_exceeded hp thr s = (r, u)" by fastforce
  note fr = drain_frame[OF d]
  show thesis
  proof (cases r)
    case (Inl e)
    with run d fr drain_failed thr show thesis by (simp add: dlq_tick_def DlqProcessor_new_def)
  next
    case (Inr es)
    with d have d': "drain_exceeded hp thr s = (Inr es, u)" by simp
    note law = drain_ok[OF inv(2) d']
    have ov: "dlq_id ` set es = over thr s" using law by (simp add: over_def)
    show thesis
    proof (cases "es = []")
      case True
      with run d' thr have "t = u" by (simp add: dlq_tick_def DlqProcessor_new_def)
      with law fr drained show thesis by simp
    next
      case False
      obtain q v where q: "quarantine_events st es u = (q, v)" by fastforce
      with run d' thr False have "t = v" by (simp add: dlq_tick_def DlqProcessor_new_def)
      have su: "status_of u = status_of s" and du: "dead u = dead s" and "sinv u"
        using fr inv by auto
      then have "status_of v = status_of u \<and> dead v = dead u \<or>
          status_of v = (\<lambda>i. if i \<in> dlq_id ` set es then None else status_of u i) \<and>
          dead v = dead u \<union> {i \<in> dlq_id ` set es. status_of u i \<noteq> None}"
        using quarantine_ok[of u es] quarantine_err[of u es] q by (cases q) blast+
      then have "status_of v = status_of s \<and> dead v = dead s \<or>
          status_of v = (\<lambda>i. if i \<in> over thr s then None else status_of s i) \<and>
          dead v = dead s \<union> {i \<in> over thr s. status_of s i \<noteq> None}"
        unfolding ov su du .
      moreover have "counts v = (\<lambda>i. if unat thr \<le> counts s i then 0 else counts s i)" and "hinv v"
        using law quarantine_frame[OF q] by simp_all
      ultimately show thesis using drained unfolding \<open>t = v\<close> by blast
    qed
  qed
qed

text \<open>No id below the threshold is moved, and no row is lost: it stays or is dead-lettered.\<close>

lemma tick_keeps_or_quarantines:
  assumes inv: "sinv s" "hinv s"
    and run: "dlq_tick (DlqProcessor_new hp st cfg rx) s = t" and row: "status_of s i \<noteq> None"
  shows "status_of t i = status_of s i \<or>
    status_of t i = None \<and> i \<in> dead t \<and> unat (dlq_threshold cfg) \<le> counts s i"
  using inv refl run
proof (cases rule: tick_cases)
  case drain_failed
  then show ?thesis by simp
next
  case drained
  from drained(3) show ?thesis
  proof (elim disjE conjE)
    assume "status_of t = status_of s"
    then show ?thesis by simp
  next
    assume st: "status_of t = (\<lambda>i. if i \<in> over (dlq_threshold cfg) s then None else status_of s i)"
      and dt: "dead t = dead s \<union> {i \<in> over (dlq_threshold cfg) s. status_of s i \<noteq> None}"
    show ?thesis
      using row unfolding st dt by (cases "i \<in> over (dlq_threshold cfg) s") (simp_all add: over_def)
  qed
qed

end

end
