(* ===== verification/Manager.thy ===== *)
theory Manager
  imports Processor Background_Tasks
begin

text \<open>
  \<^verbatim>\<open>manager.rs\<close> and \<^verbatim>\<open>builder.rs\<close>: the worker loop and how a manager is put together.

  The inner drain loop may run for ever, so it is a partial function: \<open>None\<close> is a drain that
  never ends. \<open>tokio::time::sleep\<close> is an argument (\<open>sleep n\<close> is the world after \<open>n\<close> seconds).
  The \<open>dlq\<close> feature is on exactly when a heap is present.
\<close>

section \<open>The manager (manager.rs)\<close>

record ('s, 'p) outbox_manager =
  mg_storage :: "('s, 'p) outbox_storage"
  mg_publisher :: "('s, 'p) transport"
  mg_config :: "'p outbox_config"
  mg_shutdown_rx :: "'s shutdown_rx"
  mg_dlq_heap :: "'s dlq_heap option"

definition OutboxManager_new :: "('s, 'p) outbox_storage \<Rightarrow> ('s, 'p) transport \<Rightarrow> 'p outbox_config \<Rightarrow>
    's dlq_heap option \<Rightarrow> 's shutdown_rx \<Rightarrow> ('s, 'p) outbox_manager" where
  "OutboxManager_new st tr cfg heap rx =
     \<lparr> mg_storage = st, mg_publisher = tr, mg_config = cfg, mg_shutdown_rx = rx, mg_dlq_heap = heap \<rparr>"

datatype drained = Shutdown | Back_to_waiting

partial_function (option) drain :: "('s, 'p) outbox_processor \<Rightarrow> 's dlq_heap option \<Rightarrow>
    's metrics option \<Rightarrow> 's shutdown_rx \<Rightarrow> (nat \<Rightarrow> 's \<Rightarrow> 's) \<Rightarrow> 's \<Rightarrow> (drained \<times> 's) option" where
  "drain pr heap m rx sleep s =
     (if borrow rx s then Some (Shutdown, s)
      else (case process_pending_events pr heap m s of
              (r, t) \<Rightarrow>
                (case r of
                   Inl e \<Rightarrow> Some (Back_to_waiting, sleep 5 t)
                 | Inr n \<Rightarrow>
                     if n = 0 then Some (Back_to_waiting, t)
                     else drain pr heap m rx sleep t)))"

text \<open>A drain whose every batch claims something, from states that such a batch leads back to, never ends.\<close>

lemma drain_returns_outside:
  assumes "drain pr heap m rx sleep s = Some y"
    and "\<And>s. I s \<Longrightarrow> \<not> borrow rx s \<and>
      (\<exists>n t. process_pending_events pr heap m s = (Inr (Suc n), t) \<and> I t)"
  shows "\<not> I s"
proof -
  let ?runs = "\<lambda>pr heap m rx. \<forall>s. I s \<longrightarrow> \<not> borrow rx s \<and>
    (\<exists>n t. process_pending_events pr heap m s = (Inr (Suc n), t) \<and> I t)"
  have "?runs pr heap m rx \<longrightarrow> \<not> I s"
  proof (rule drain.raw_induct[where P = "\<lambda>pr heap m rx sleep s y. ?runs pr heap m rx \<longrightarrow> \<not> I s",
        OF _ assms(1)], intro impI notI)
    fix drain' pr heap m rx sleep s y
    assume IH: "\<And>pr heap m rx sleep s y. drain' pr heap m rx sleep s = Some y \<Longrightarrow>
        ?runs pr heap m rx \<longrightarrow> \<not> I s"
      and run: "(if borrow rx s then Some (Shutdown, s)
        else case process_pending_events pr heap m s of
          (r, t) \<Rightarrow> case r of Inl e \<Rightarrow> Some (Back_to_waiting, sleep 5 t)
            | Inr n \<Rightarrow> if n = 0 then Some (Back_to_waiting, t) else drain' pr heap m rx sleep t) = Some y"
      and step: "?runs pr heap m rx" and "I s"
    from step \<open>I s\<close> obtain n t where
      b: "\<not> borrow rx s" "process_pending_events pr heap m s = (Inr (Suc n), t)" "I t" by blast
    then have "drain' pr heap m rx sleep t = Some y" using run by simp
    from IH[OF this] step b(3) show False by blast
  qed
  with assms(2) show ?thesis by blast
qed

lemma drain_diverges:
  assumes "\<And>s. I s \<Longrightarrow> \<not> borrow rx s \<and>
      (\<exists>n t. process_pending_events pr heap m s = (Inr (Suc n), t) \<and> I t)"
    and "I s"
  shows "drain pr heap m rx sleep s = None"
  using drain_returns_outside[of pr heap m rx sleep s _ I, OF _ assms(1)] assms(2)
  by (cases "drain pr heap m rx sleep s") auto

datatype manager_arm = Notification | Poll_tick | Rx_changed

definition drain_then :: "('s, 'p) outbox_manager \<Rightarrow> 's metrics option \<Rightarrow> (nat \<Rightarrow> 's \<Rightarrow> 's) \<Rightarrow>
    's \<Rightarrow> (flow \<times> 's) option" where
  "drain_then mg m sleep s =
     map_option (\<lambda>(d, t). (case d of Shutdown \<Rightarrow> Exit | Back_to_waiting \<Rightarrow> Continue, t))
       (drain (OutboxProcessor_new (mg_storage mg) (mg_publisher mg) (mg_config mg))
          (mg_dlq_heap mg) m (mg_shutdown_rx mg) sleep s)"

fun manager_turn :: "('s, 'p) outbox_manager \<Rightarrow> 's metrics option \<Rightarrow> (nat \<Rightarrow> 's \<Rightarrow> 's) \<Rightarrow>
    manager_arm \<Rightarrow> 's \<Rightarrow> (flow \<times> 's) option" where
  "manager_turn mg m sleep Notification s =
     (case wait_for_notification (mg_storage mg) ''outbox_event'' s of
        (Inl e, t) \<Rightarrow> Some (Continue, sleep 5 t)
      | (Inr _, t) \<Rightarrow> drain_then mg m sleep t)"
| "manager_turn mg m sleep Poll_tick s = drain_then mg m sleep s"
| "manager_turn mg m sleep Rx_changed s =
     (case changed_arm (mg_shutdown_rx mg) s of
        Exit \<Rightarrow> Some (Exit, s)
      | Continue \<Rightarrow> drain_then mg m sleep s)"

text \<open>The tasks \<open>run\<close> spawns before it enters its own loop, with their intervals in seconds.\<close>

datatype ('s, 'p) spawned =
    Spawn_gc "('s, 'p) garbage_collector" u64 "'s shutdown_rx"
  | Spawn_dlq "('s, 'p) dlq_processor" u64

definition manager_spawns :: "('s, 'p) outbox_manager \<Rightarrow> ('s, 'p) spawned list" where
  "manager_spawns mg =
     Spawn_gc (GarbageCollector_new (mg_storage mg)) (gc_interval_secs (mg_config mg)) (mg_shutdown_rx mg)
     # (case mg_dlq_heap mg of
          None \<Rightarrow> []
        | Some hp \<Rightarrow>
            [Spawn_dlq (DlqProcessor_new hp (mg_storage mg) (mg_config mg) (mg_shutdown_rx mg))
               (dlq_interval_secs (mg_config mg))])"

definition manager_run :: "('s, 'p) outbox_manager \<Rightarrow> 's metrics option \<Rightarrow> (nat \<Rightarrow> 's \<Rightarrow> 's) \<Rightarrow>
    (manager_arm, 's) schedule \<Rightarrow> 's \<Rightarrow> ((outbox_error + unit) option \<times> 's) option exec" where
  "manager_run mg m sleep ws s =
     on_interval (poll_interval_secs (mg_config mg)) (select_loop (manager_turn mg m sleep) ws s)"

interpretation mgr: shutdown_loop "manager_turn mg m sleep" Rx_changed
    "stop_requested (mg_shutdown_rx mg)"
  for mg :: "('s, 'p) outbox_manager" and m :: "'s metrics option" and sleep :: "nat \<Rightarrow> 's \<Rightarrow> 's"
proof
  fix s :: 's
  assume "stop_requested (mg_shutdown_rx mg) s"
  then show "manager_turn mg m sleep Rx_changed s = Some (Exit, s)"
    by (simp flip: changed_arm_Exit)
qed

section \<open>The drain loop ends\<close>

text \<open>
  What a drain needs to end: a claim takes its rows out of the backlog and nothing in the batch puts
  them back. \<open>calm\<close> is the condition under which the backend guarantees that (for PostgreSQL: the
  lock outlives the drain).
\<close>

locale drain_contract = worker_contract st status_of dead sinv tr accepted heap m
  for st :: "('s, 'p) outbox_storage"
    and status_of :: "'s \<Rightarrow> event_id \<Rightarrow> event_status option"
    and dead :: "'s \<Rightarrow> event_id set"
    and sinv :: "'s \<Rightarrow> bool"
    and tr :: "('s, 'p) transport"
    and accepted :: "'s \<Rightarrow> event_id list"
    and heap :: "'s dlq_heap option"
    and m :: "'s metrics option" +
  fixes backlog :: "'s \<Rightarrow> nat"
    and calm :: "'s \<Rightarrow> bool"
  assumes fetch_claims:
    "sinv s \<Longrightarrow> calm s \<Longrightarrow> fetch_next_to_process st l s = (Inr evs, t) \<Longrightarrow>
       calm t \<and> backlog t + length evs \<le> backlog s"
    and batch_calm:
    "publish_steps_keep tr heap m (\<lambda>s t. calm t = calm s \<and> backlog t = backlog s)"
    and update_calm:
    "sinv s \<Longrightarrow> calm s \<Longrightarrow> update_status st ids Sent s = (Inr u, t) \<Longrightarrow>
       calm t \<and> backlog t \<le> backlog s"
begin

lemma loop_calm:
  assumes "publish_loop tr heap m evs acc s = (r, t)"
  shows "calm t = calm s \<and> backlog t = backlog s"
  by (rule publish_loop_keeps[OF batch_calm _ _ assms]) auto

lemma batch_backlog:
  assumes inv: "sinv s" "calm s"
    and run: "process_pending_events (OutboxProcessor_new st tr cfg) heap m s = (Inr n, t)"
  shows "sinv t \<and> calm t \<and> backlog t + n \<le> backlog s"
  using run
proof (cases rule: batch_cases)
  case empty
  then show ?thesis
    using fetch_ok[OF inv(1) empty(1)] fetch_claims[OF inv empty(1)] by simp
next
  case (none_sent evs s1)
  then show ?thesis
    using fetch_ok[OF inv(1) none_sent(1)] fetch_claims[OF inv none_sent(1)]
      loop_calm[OF none_sent(3)] loop_frame[OF none_sent(3)] by simp
next
  case (marked evs s1 ids s2 q)
  from marked(6) obtain u where q: "q = Inr u" and n: "n = length evs" by (cases q) auto
  have "sinv s2" "calm s2" "backlog s2 + n \<le> backlog s"
    using fetch_ok[OF inv(1) marked(1)] fetch_claims[OF inv marked(1)]
      loop_calm[OF marked(3)] loop_frame[OF marked(3)] n by simp_all
  then show ?thesis
    using update_ok[OF _ marked(5)[unfolded q]] update_calm[OF _ _ marked(5)[unfolded q]] by fastforce
qed simp_all

lemma drain_terminates:
  assumes "sinv s" and "calm s"
  shows "\<exists>y. drain (OutboxProcessor_new st tr cfg) heap m rx sleep s = Some y"
  using assms
proof (induction "backlog s" arbitrary: s rule: less_induct)
  case less
  obtain r t where run: "process_pending_events (OutboxProcessor_new st tr cfg) heap m s = (r, t)"
    by fastforce
  show ?case
  proof (cases "borrow rx s \<or> (\<exists>e. r = Inl e) \<or> r = Inr 0")
    case True
    then show ?thesis using run by (subst drain.simps) auto
  next
    case False
    then obtain n where r: "r = Inr n" "0 < n" by (cases r) auto
    with batch_backlog[OF less.prems] run have t: "sinv t" "calm t" "backlog t < backlog s"
      by fastforce+
    from less.hyps[OF t(3,1,2)] show ?thesis using run r False by (subst drain.simps) simp
  qed
qed

end

section \<open>The builder (builder.rs)\<close>

text \<open>
  The \<open>dlq\<close> flag is the cargo feature. Without it the builder has no \<open>dlq_heap\<close> field; the model
  keeps the field and ignores it.
\<close>

record ('s, 'p) outbox_manager_builder =
  bd_storage :: "('s, 'p) outbox_storage option"
  bd_publisher :: "('s, 'p) transport option"
  bd_config :: "'p outbox_config option"
  bd_shutdown_rx :: "'s shutdown_rx option"
  bd_dlq_heap :: "'s dlq_heap option"

definition Builder_default :: "('s, 'p) outbox_manager_builder" where
  "Builder_default =
     \<lparr> bd_storage = None, bd_publisher = None, bd_config = None, bd_shutdown_rx = None,
       bd_dlq_heap = None \<rparr>"

definition Builder_new :: "('s, 'p) outbox_manager_builder" where
  "Builder_new = Builder_default"

definition set_storage :: "('s, 'p) outbox_storage \<Rightarrow> ('s, 'p) outbox_manager_builder \<Rightarrow>
    ('s, 'p) outbox_manager_builder" where
  "set_storage x b = b\<lparr> bd_storage := Some x \<rparr>"

definition set_publisher :: "('s, 'p) transport \<Rightarrow> ('s, 'p) outbox_manager_builder \<Rightarrow>
    ('s, 'p) outbox_manager_builder" where
  "set_publisher x b = b\<lparr> bd_publisher := Some x \<rparr>"

definition set_config :: "'p outbox_config \<Rightarrow> ('s, 'p) outbox_manager_builder \<Rightarrow>
    ('s, 'p) outbox_manager_builder" where
  "set_config x b = b\<lparr> bd_config := Some x \<rparr>"

definition set_shutdown_rx :: "'s shutdown_rx \<Rightarrow> ('s, 'p) outbox_manager_builder \<Rightarrow>
    ('s, 'p) outbox_manager_builder" where
  "set_shutdown_rx x b = b\<lparr> bd_shutdown_rx := Some x \<rparr>"

definition set_dlq_heap :: "'s dlq_heap \<Rightarrow> ('s, 'p) outbox_manager_builder \<Rightarrow>
    ('s, 'p) outbox_manager_builder" where
  "set_dlq_heap x b = b\<lparr> bd_dlq_heap := Some x \<rparr>"

fun ok_or_else :: "'a option \<Rightarrow> string \<Rightarrow> outbox_error + 'a" where
  "ok_or_else (Some x) msg = Inr x"
| "ok_or_else None msg = Inl (ConfigError msg)"

definition build :: "bool \<Rightarrow> ('s, 'p) outbox_manager_builder \<Rightarrow>
    outbox_error + ('s, 'p) outbox_manager" where
  "build dlq b =
     (case ok_or_else (bd_storage b) ''Storage config is missing'' of
        Inl e \<Rightarrow> Inl e
      | Inr st \<Rightarrow>
     (case ok_or_else (bd_publisher b) ''Publisher config is missing'' of
        Inl e \<Rightarrow> Inl e
      | Inr tr \<Rightarrow>
     (case ok_or_else (bd_config b) ''Config config is missing'' of
        Inl e \<Rightarrow> Inl e
      | Inr cfg \<Rightarrow>
     (case (if dlq then map_sum id Some (ok_or_else (bd_dlq_heap b) ''Dlq heap config is missing'')
            else Inr None) of
        Inl e \<Rightarrow> Inl e
      | Inr heap \<Rightarrow>
     (case ok_or_else (bd_shutdown_rx b) ''Shutdown channel is missing'' of
        Inl e \<Rightarrow> Inl e
      | Inr rx \<Rightarrow> Inr (OutboxManager_new st tr cfg heap rx))))))"

end
