(* ===== verification/Examples.thy ===== *)
theory Examples
  imports Service Manager
begin

text \<open>
  The example programs under \<^verbatim>\<open>example/\<close>: their transports, their configurations and the requests
  their \<open>main\<close> functions make. The transports hold the sending half of a \<open>tokio\<close> unbounded channel,
  which is outside the repository: \<open>tx\<close> is its \<open>send\<close> method.
\<close>

section \<open>The transports\<close>

datatype 'p message = Message "'p event"

type_synonym ('s, 'p) sender = "'p message \<Rightarrow> ('s, string, unit) call"

definition tokio_publish :: "('s, 'p) sender \<Rightarrow> 'p event \<Rightarrow> ('s, unit) io" where
  "tokio_publish tx event s =
     (case tx (Message event) s of
        (Inl e, t) \<Rightarrow> (Inl (InfrastructureError e), t)
      | (Inr u, t) \<Rightarrow> (Inr u, t))"

definition TokioEventPublisher :: "('s, 'p) sender \<Rightarrow> ('s, 'p) transport" where
  "TokioEventPublisher tx = \<lparr> publish = tokio_publish tx \<rparr>"

definition flaky_publish :: "('s, 'p) sender \<Rightarrow> 'p event \<Rightarrow> ('s, unit) io" where
  "flaky_publish tx event s =
     (if event_type_as_str (event_type event) = ''CursedPing''
      then (Inl (InfrastructureError ''broker is on fire''), s)
      else (case tx (Message event) s of
              (Inl e, t) \<Rightarrow> (Inl (InfrastructureError e), t)
            | (Inr u, t) \<Rightarrow> (Inr u, t)))"

definition FlakyPublisher_new :: "('s, 'p) sender \<Rightarrow> ('s, 'p) transport" where
  "FlakyPublisher_new tx = \<lparr> publish = flaky_publish tx \<rparr>"

lemma example_publish [simp]:
  "publish (TokioEventPublisher tx) = tokio_publish tx"
  "publish (FlakyPublisher_new tx) = flaky_publish tx"
  by (simp_all add: TokioEventPublisher_def FlakyPublisher_new_def)

text \<open>
  The channel's documentation: a \<open>send\<close> that returns \<open>Ok\<close> has queued the message, one that returns
  an error has not (the receiver is gone).
\<close>

locale unbounded_channel =
  fixes tx :: "('s, 'p) sender"
    and queued :: "'s \<Rightarrow> 'p message list"
  assumes tx_ok: "tx msg s = (Inr u, t) \<Longrightarrow> queued t = queued s @ [msg]"
    and tx_err: "tx msg s = (Inl e, t) \<Longrightarrow> queued t = queued s"
begin

definition delivered :: "'s \<Rightarrow> event_id list" where
  "delivered s = map (\<lambda>msg. case msg of Message e \<Rightarrow> eid e) (queued s)"

lemma cursed_never_delivered:
  assumes "event_type_as_str (event_type e) = ''CursedPing''"
  shows "flaky_publish tx e s = (Inl (InfrastructureError ''broker is on fire''), s)"
  using assms by (simp add: flaky_publish_def)

end

sublocale unbounded_channel \<subseteq> tokio: transport_contract "TokioEventPublisher tx" delivered
proof
  fix e :: "'p event" and s t :: 's and u :: unit and err
  show "publish (TokioEventPublisher tx) e s = (Inr u, t) \<Longrightarrow> delivered t = delivered s @ [eid e]"
    by (auto simp: tokio_publish_def delivered_def split: sum.splits prod.splits dest!: tx_ok)
  show "publish (TokioEventPublisher tx) e s = (Inl err, t) \<Longrightarrow>
      delivered t = delivered s \<or> delivered t = delivered s @ [eid e]"
    by (auto simp: tokio_publish_def delivered_def split: sum.splits prod.splits dest!: tx_err)
qed

sublocale unbounded_channel \<subseteq> flaky: transport_contract "FlakyPublisher_new tx" delivered
proof
  fix e :: "'p event" and s t :: 's and u :: unit and err
  show "publish (FlakyPublisher_new tx) e s = (Inr u, t) \<Longrightarrow> delivered t = delivered s @ [eid e]"
    by (auto simp: flaky_publish_def delivered_def split: if_splits sum.splits prod.splits dest!: tx_ok)
  show "publish (FlakyPublisher_new tx) e s = (Inl err, t) \<Longrightarrow>
      delivered t = delivered s \<or> delivered t = delivered s @ [eid e]"
    by (auto simp: flaky_publish_def delivered_def split: if_splits sum.splits prod.splits dest!: tx_err)
qed

section \<open>Configurations and requests\<close>

datatype my_event = HiOutbox string

datatype demo_event = Ping string

definition in_memory_config :: "my_event outbox_config" where
  "in_memory_config =
     \<lparr> batch_size = 100, retention_days = 1, gc_interval_secs = 10, poll_interval_secs = 100,
       lock_timeout_mins = 1, idempotency_strategy = NoToken, dlq_threshold = 10,
       dlq_interval_secs = 300 \<rparr>"

definition deduplication_config :: "my_event outbox_config" where
  "deduplication_config =
     \<lparr> batch_size = 100, retention_days = 1, gc_interval_secs = 10, poll_interval_secs = 100,
       lock_timeout_mins = 1, idempotency_strategy = Provided, dlq_threshold = 10,
       dlq_interval_secs = 300 \<rparr>"

definition dlq_config :: "demo_event outbox_config" where
  "dlq_config =
     \<lparr> batch_size = 100, retention_days = 1, gc_interval_secs = 60, poll_interval_secs = 2,
       lock_timeout_mins = 1, idempotency_strategy = NoToken, dlq_threshold = 3,
       dlq_interval_secs = 5 \<rparr>"

definition no_event :: "'s \<Rightarrow> 'p event option \<times> 's" where
  "no_event s = (None, s)"

text \<open>
  A \<open>main\<close> puts its manager together first and leaves with the builder's error if that fails; what
  the spawned worker does to the world until the next request is \<open>pause\<close>. The results are that of
  the first request or of the builder, which \<open>?\<close> makes the result of \<open>main\<close>, and that of the second
  request if it was made. \<open>dlq\<close> says whether \<^verbatim>\<open>outbox-core\<close> is compiled with its \<open>dlq\<close> feature.
\<close>

type_synonym 's requests =
  "(outbox_error + unit) exec \<times> (outbox_error + unit) exec option \<times> 's"

fun succeeded :: "(outbox_error + unit) exec \<Rightarrow> bool" where
  "succeeded (Return (Inr _)) = True"
| "succeeded _ = False"

definition example_manager :: "bool \<Rightarrow> ('s, 'p) outbox_storage \<Rightarrow> ('s, 'p) transport \<Rightarrow>
    'p outbox_config \<Rightarrow> 's shutdown_rx \<Rightarrow> outbox_error + ('s, 'p) outbox_manager" where
  "example_manager dlq storage publisher config rx =
     build dlq (set_shutdown_rx rx (set_config config (set_publisher publisher
       (set_storage storage Builder_new))))"

definition dlq_example_manager :: "('s, demo_event) outbox_storage \<Rightarrow> ('s, demo_event) transport \<Rightarrow>
    's dlq_heap \<Rightarrow> 's shutdown_rx \<Rightarrow> outbox_error + ('s, demo_event) outbox_manager" where
  "dlq_example_manager storage publisher heap rx =
     build True (set_shutdown_rx rx (set_dlq_heap heap (set_config dlq_config (set_publisher publisher
       (set_storage storage Builder_new)))))"

definition request_twice :: "('s, 'p) outbox_service \<Rightarrow> host \<Rightarrow> host \<Rightarrow> string \<times> 'p \<times> string option \<Rightarrow>
    string \<times> 'p \<times> string option \<Rightarrow> ('s \<Rightarrow> 's) \<Rightarrow> 's \<Rightarrow> 's requests" where
  "request_twice service h1 h2 req1 req2 pause s =
     (case req1 of (ty1, p1, tok1) \<Rightarrow>
       (case add_event service h1 ty1 p1 tok1 no_event s of
          (r1, t) \<Rightarrow>
            if succeeded r1
            then (case req2 of (ty2, p2, tok2) \<Rightarrow>
                   (case add_event service h2 ty2 p2 tok2 no_event (pause t) of
                      (r2, u) \<Rightarrow> (r1, Some r2, u)))
            else (r1, None, t)))"

definition in_memory_main :: "bool \<Rightarrow> ('s, my_event) outbox_storage \<Rightarrow> ('s, my_event) sender \<Rightarrow>
    ('s, my_event) outbox_writer \<Rightarrow> 's shutdown_rx \<Rightarrow> host \<Rightarrow> host \<Rightarrow> ('s \<Rightarrow> 's) \<Rightarrow> 's \<Rightarrow> 's requests" where
  "in_memory_main dlq storage sender writer rx h1 h2 pause s =
     (case example_manager dlq storage (TokioEventPublisher sender) in_memory_config rx of
        Inl e \<Rightarrow> (Return (Inl e), None, s)
      | Inr outbox \<Rightarrow>
          request_twice (OutboxService_new writer in_memory_config) h1 h2
            (''OrderCreated'', HiOutbox ''Hi!'', Some ''r_token'')
            (''OrderCreated'', HiOutbox ''Hi!'', Some ''r_token'') pause s)"

definition deduplication_main :: "bool \<Rightarrow> ('s, my_event) outbox_storage \<Rightarrow> ('s, my_event) sender \<Rightarrow>
    ('s, my_event) outbox_writer \<Rightarrow> 's idempotency_provider \<Rightarrow> 's shutdown_rx \<Rightarrow> host \<Rightarrow> host \<Rightarrow>
    ('s \<Rightarrow> 's) \<Rightarrow> 's \<Rightarrow> 's requests" where
  "deduplication_main dlq storage sender writer redis_provider rx h1 h2 pause s =
     (case example_manager dlq storage (TokioEventPublisher sender) deduplication_config rx of
        Inl e \<Rightarrow> (Return (Inl e), None, s)
      | Inr outbox \<Rightarrow>
          request_twice (OutboxService_with_idempotency writer deduplication_config redis_provider) h1 h2
            (''OrderCreated'', HiOutbox ''Hi!'', Some ''r_token'')
            (''OrderCreated'', HiOutbox ''Hi!'', Some ''r_token'') pause s)"

definition dlq_main :: "('s, demo_event) outbox_storage \<Rightarrow> ('s, demo_event) sender \<Rightarrow>
    's dlq_heap \<Rightarrow> ('s, demo_event) outbox_writer \<Rightarrow> 's shutdown_rx \<Rightarrow> host \<Rightarrow> host \<Rightarrow> ('s \<Rightarrow> 's) \<Rightarrow>
    's \<Rightarrow> 's requests" where
  "dlq_main storage sender heap writer rx h1 h2 pause s =
     (case dlq_example_manager storage (FlakyPublisher_new sender) heap rx of
        Inl e \<Rightarrow> (Return (Inl e), None, s)
      | Inr outbox \<Rightarrow>
          request_twice (OutboxService_new writer dlq_config) h1 h2
            (''GoodPing'', Ping ''hello'', None) (''CursedPing'', Ping ''doom'', None) pause s)"

lemma example_manager_without_dlq:
  "example_manager False st tr cfg rx = Inr (OutboxManager_new st tr cfg None rx)"
  by (simp add: example_manager_def build_def set_storage_def set_publisher_def set_config_def
      set_shutdown_rx_def)

end
