(* ===== verification/Interleaving.thy ===== *)
theory Interleaving
  imports Service Manager
begin

text \<open>
  A deployment at the grain of its database, broker and heap calls: any number of workers, the
  reaper, the collector and producers interleave freely on one shared world, and a worker or the
  reaper may crash between any two calls. One call is one step, because each of them is atomic for
  its backend (a single SQL statement, a single command or script).

  A worker's program counter is its \<open>job\<close>: what \<open>process_pending_events\<close> still has to do.
  \<open>worker_step\<close> makes its next call. The theorem \<open>worker_runs_batch\<close> says that running the steps
  without interruption is \<open>process_pending_events\<close>.
\<close>

section \<open>A batch, call by call\<close>

record ('s, 'p) deployment =
  sys_storage :: "('s, 'p) outbox_storage"
  sys_writer :: "('s, 'p) outbox_writer"
  sys_transport :: "('s, 'p) transport"
  sys_heap :: "'s dlq_heap option"
  sys_metrics :: "'s metrics option"
  sys_config :: "'p outbox_config"
  sys_sleep :: "nat \<Rightarrow> 's \<Rightarrow> 's"

datatype 'p job =
    Idle
  | Batch nat "'p event list" "event_id list"
  | Noting nat "'p event" bool "'p event list" "event_id list"
  | Finished "outbox_error + nat"

fun worker_step :: "('s, 'p) deployment \<Rightarrow> 'p job \<times> 's \<Rightarrow> 'p job \<times> 's" where
  "worker_step d (Idle, s) =
     (case fetch_next_to_process (sys_storage d) (batch_size (sys_config d)) s of
        (Inl e, t) \<Rightarrow> (Finished (Inl e), t)
      | (Inr events, t) \<Rightarrow>
          (if events = [] then Finished (Inr 0) else Batch (length events) events [], t))"
| "worker_step d (Batch n (event # events) success_ids, s) =
     (case publish (sys_transport d) event s of
        (Inr _, t) \<Rightarrow> (Noting n event True events success_ids, t)
      | (Inl _, t) \<Rightarrow> (Noting n event False events success_ids, t))"
| "worker_step d (Noting n event True events success_ids, s) =
     (case note_success (sys_heap d) (eid event) s of
        (Inl e, t) \<Rightarrow> (Finished (Inl e), t)
      | (Inr _, t) \<Rightarrow>
          (Batch n events (success_ids @ [eid event]),
           emit_success (sys_metrics d) (display_event_type (event_type event)) t))"
| "worker_step d (Noting n event False events success_ids, s) =
     (case note_failure (sys_heap d) (eid event) s of
        (Inl e, t) \<Rightarrow> (Finished (Inl e), t)
      | (Inr _, t) \<Rightarrow>
          (Batch n events success_ids,
           emit_error (sys_metrics d) (display_event_type (event_type event)) t))"
| "worker_step d (Batch n [] success_ids, s) =
     (if success_ids \<noteq> []
      then (case update_status (sys_storage d) success_ids Sent s of
              (Inl e, t) \<Rightarrow> (Finished (Inl e), t)
            | (Inr _, t) \<Rightarrow> (Finished (Inr n), t))
      else (Finished (Inr n), s))"
| "worker_step d (Finished r, s) = (Idle, s)"

definition sys_processor :: "('s, 'p) deployment \<Rightarrow> ('s, 'p) outbox_processor" where
  "sys_processor d = OutboxProcessor_new (sys_storage d) (sys_transport d) (sys_config d)"

definition finish_batch :: "('s, 'p) deployment \<Rightarrow> nat \<Rightarrow> (outbox_error + event_id list) \<times> 's \<Rightarrow>
    'p job \<times> 's" where
  "finish_batch d n =
     (\<lambda>(r, s). case r of Inl e \<Rightarrow> (Finished (Inl e), s) | Inr ids \<Rightarrow> worker_step d (Batch n [] ids, s))"

definition runs :: "('s, 'p) deployment \<Rightarrow> 'p job \<times> 's \<Rightarrow> 'p job \<times> 's \<Rightarrow> bool" where
  "runs d x y \<longleftrightarrow> (\<exists>k. (worker_step d ^^ k) x = y)"

lemma runs_refl [intro, simp]: "runs d x x"
  unfolding runs_def by (rule exI[of _ 0]) simp

lemma runs_step: "runs d (worker_step d x) y \<Longrightarrow> runs d x y"
  unfolding runs_def by (metis funpow_Suc_right o_apply)

lemma runs_one: "worker_step d x = y \<Longrightarrow> runs d x y"
  by (rule runs_step) simp

lemma finish_batch_error: "finish_batch d n (Inl e, s) = (Finished (Inl e), s)"
  by (simp add: finish_batch_def)

lemma loop_runs:
  "runs d (Batch n events ids, s)
     (finish_batch d n (publish_loop (sys_transport d) (sys_heap d) (sys_metrics d) events ids s))"
proof (induction events arbitrary: ids s)
  case Nil
  show ?case by (rule runs_one) (simp add: finish_batch_def)
next
  case (Cons event events)
  show ?case
    by (rule runs_step, rule runs_step)
      (auto simp: Let_def finish_batch_error Cons.IH split: sum.splits prod.splits)
qed

lemma batch_runs:
  assumes "process_pending_events (sys_processor d) (sys_heap d) (sys_metrics d) s = (r, t)"
  shows "runs d (Idle, s) (Finished r, t)"
proof -
  obtain x s1 where
    f: "fetch_next_to_process (sys_storage d) (batch_size (sys_config d)) s = (x, s1)" by fastforce
  show ?thesis
  proof (cases "\<exists>evs. x = Inr evs \<and> evs \<noteq> []")
    case False
    then show ?thesis
      using assms f
      by (intro runs_one)
        (auto simp: process_pending_events_def sys_processor_def and_then_def split: sum.splits)
  next
    case True
    then obtain evs where evs: "x = Inr evs" "evs \<noteq> []" by blast
    obtain q s2 where
      l: "publish_loop (sys_transport d) (sys_heap d) (sys_metrics d) evs [] s1 = (q, s2)" by fastforce
    have "runs d (worker_step d (Idle, s)) (finish_batch d (length evs) (q, s2))"
      using loop_runs[of d "length evs" evs "[]" s1] f evs l by simp
    moreover have "finish_batch d (length evs) (q, s2) = (Finished r, t)"
      using assms f evs l
      by (auto simp: finish_batch_def process_pending_events_def event_publish_def sys_processor_def
          and_then_def split: sum.splits prod.splits if_splits)
    ultimately show ?thesis by (metis runs_step)
  qed
qed

section \<open>The deployment\<close>

record ('s, 'p) system =
  shared :: 's
  workers :: "nat \<Rightarrow> 'p job"
  drained_entries :: "dlq_entry list"

text \<open>
  One step: a worker makes its next call or crashes; a producer inserts an event that \<open>add_event\<close>
  built; the collector ticks; the reaper drains, quarantines what it drained, or crashes in between
  (its entries are gone then); time passes.
\<close>

inductive sys_step :: "('s, 'p) deployment \<Rightarrow> ('s, 'p) system \<Rightarrow> ('s, 'p) system \<Rightarrow> bool"
  for d :: "('s, 'p) deployment" where
  work: "worker_step d (workers S k, shared S) = (j, t) \<Longrightarrow>
    sys_step d S (S\<lparr> shared := t, workers := (workers S)(k := j) \<rparr>)"
| crash: "sys_step d S (S\<lparr> workers := (workers S)(k := Idle) \<rparr>)"
| insert: "insert_event (sys_writer d) (new_event h ty p tok) (shared S) = (r, t) \<Longrightarrow>
    sys_step d S (S\<lparr> shared := t \<rparr>)"
| collect: "collect_garbage (GarbageCollector_new (sys_storage d)) (shared S) = (r, t) \<Longrightarrow>
    sys_step d S (S\<lparr> shared := t \<rparr>)"
| reap: "sys_heap d = Some hp \<Longrightarrow>
    drain_exceeded hp (dlq_threshold (sys_config d)) (shared S) = (r, t) \<Longrightarrow>
    sys_step d S (S\<lparr> shared := t, drained_entries := (case r of Inl e \<Rightarrow> [] | Inr es \<Rightarrow> es) \<rparr>)"
| quarantine: "drained_entries S \<noteq> [] \<Longrightarrow>
    quarantine_events (sys_storage d) (drained_entries S) (shared S) = (r, t) \<Longrightarrow>
    sys_step d S (S\<lparr> shared := t, drained_entries := [] \<rparr>)"
| reaper_crash: "sys_step d S (S\<lparr> drained_entries := [] \<rparr>)"
| pass: "sys_step d S (S\<lparr> shared := sys_sleep d n (shared S) \<rparr>)"

abbreviation sys_steps :: "('s, 'p) deployment \<Rightarrow> ('s, 'p) system \<Rightarrow> ('s, 'p) system \<Rightarrow> bool" where
  "sys_steps d \<equiv> (sys_step d)\<^sup>*\<^sup>*"

lemma runs_are_steps:
  assumes "runs d (workers S k, shared S) (j, t)"
  shows "sys_steps d S (S\<lparr> shared := t, workers := (workers S)(k := j) \<rparr>)"
proof -
  obtain n where "(worker_step d ^^ n) (workers S k, shared S) = (j, t)"
    using assms unfolding runs_def by blast
  then show ?thesis
  proof (induction n arbitrary: j t)
    case 0
    then have "j = workers S k" "t = shared S" by simp_all
    then show ?case by (simp add: fun_upd_idem)
  next
    case (Suc n)
    obtain j' t' where x: "(worker_step d ^^ n) (workers S k, shared S) = (j', t')" by fastforce
    let ?U = "S\<lparr> shared := t', workers := (workers S)(k := j') \<rparr>"
    have "worker_step d (workers ?U k, shared ?U) = (j, t)" using Suc.prems x by simp
    from sys_step.work[OF this] have
      "sys_step d ?U (S\<lparr> shared := t, workers := (workers S)(k := j) \<rparr>)" by simp
    with Suc.IH[OF x] show ?case by (rule rtranclp.rtrancl_into_rtrancl)
  qed
qed

section \<open>Nothing is lost\<close>

text \<open>
  What the deployment needs beyond the worker's contract: an insert adds its row or changes nothing,
  only a publish touches the broker's log, and the heap and the passing of time do not touch the
  tables.
\<close>

locale system_contract =
  worker_contract "sys_storage d" status_of dead sinv "sys_transport d" accepted "sys_heap d"
    "sys_metrics d"
  for d :: "('s, 'p) deployment"
    and status_of :: "'s \<Rightarrow> event_id \<Rightarrow> event_status option"
    and dead :: "'s \<Rightarrow> event_id set"
    and sinv :: "'s \<Rightarrow> bool"
    and accepted :: "'s \<Rightarrow> event_id list" +
  assumes insert_law:
    "sinv s \<Longrightarrow> insert_event (sys_writer d) e s = (r, t) \<Longrightarrow>
       sinv t \<and> dead t = dead s \<and>
       ((\<exists>x. r = Inl x) \<and> status_of t = status_of s \<or>
        status_of s (eid e) = None \<and> status_of t = (status_of s)(eid e \<mapsto> status e))"
    and other_logs:
    "insert_event (sys_writer d) e s = (r, t) \<Longrightarrow> accepted t = accepted s"
    "delete_garbage (sys_storage d) s = (r, t) \<Longrightarrow> accepted t = accepted s"
    "quarantine_events (sys_storage d) es s = (r, t) \<Longrightarrow> accepted t = accepted s"
    "sys_heap d = Some hp \<Longrightarrow> drain_exceeded hp thr s = (q, t) \<Longrightarrow> accepted t = accepted s"
    "accepted (sys_sleep d n s) = accepted s"
    and other_frames:
    "sys_heap d = Some hp \<Longrightarrow> drain_exceeded hp thr s = (q, t) \<Longrightarrow>
       sinv t = sinv s \<and> status_of t = status_of s \<and> dead t = dead s"
    "sinv (sys_sleep d n s) = sinv s" "status_of (sys_sleep d n s) = status_of s"
    "dead (sys_sleep d n s) = dead s"
begin

text \<open>A worker only holds ids as published that the broker has accepted.\<close>

fun job_ok :: "'p job \<Rightarrow> 's \<Rightarrow> bool" where
  "job_ok (Batch n es ids) s \<longleftrightarrow> set ids \<subseteq> set (accepted s)"
| "job_ok (Noting n e ok es ids) s \<longleftrightarrow>
     set ids \<subseteq> set (accepted s) \<and> (ok \<longrightarrow> eid e \<in> set (accepted s))"
| "job_ok _ s \<longleftrightarrow> True"

definition sent_accepted :: "'s \<Rightarrow> bool" where
  "sent_accepted s \<longleftrightarrow> (\<forall>i. status_of s i = Some Sent \<longrightarrow> i \<in> set (accepted s))"

definition sys_inv :: "('s, 'p) system \<Rightarrow> bool" where
  "sys_inv S \<longleftrightarrow> sinv (shared S) \<and> sent_accepted (shared S) \<and> (\<forall>k. job_ok (workers S k) (shared S))"

text \<open>An event is safe when it is stored, dead-lettered, or accepted by the broker.\<close>

definition safe :: "'s \<Rightarrow> event_id \<Rightarrow> bool" where
  "safe s i \<longleftrightarrow> status_of s i \<noteq> None \<or> i \<in> dead s \<or> i \<in> set (accepted s)"

text \<open>What a step may do to the world.\<close>

definition progress :: "'s \<Rightarrow> 's \<Rightarrow> bool" where
  "progress s t \<longleftrightarrow> sinv t \<and> sent_accepted t \<and> set (accepted s) \<subseteq> set (accepted t) \<and>
     (\<forall>i. safe s i \<longrightarrow> safe t i)"

lemma progressI:
  assumes "sinv t" and "\<And>i. status_of t i = Some Sent \<Longrightarrow> i \<in> set (accepted t)"
    and "set (accepted s) \<subseteq> set (accepted t)" and "dead s \<subseteq> dead t"
    and "\<And>i. status_of s i \<noteq> None \<Longrightarrow> status_of t i \<noteq> None \<or> i \<in> dead t \<or> i \<in> set (accepted t)"
  shows "progress s t"
  unfolding progress_def sent_accepted_def safe_def
proof (intro conjI allI impI)
  fix i assume "status_of s i \<noteq> None \<or> i \<in> dead s \<or> i \<in> set (accepted s)"
  then show "status_of t i \<noteq> None \<or> i \<in> dead t \<or> i \<in> set (accepted t)"
    using assms(3-5) by blast
qed (fact assms(1-3))+

lemma progress_same:
  assumes "sinv s" and "sent_accepted s"
    and frame: "sinv t = sinv s \<and> status_of t = status_of s \<and> dead t = dead s"
    and log: "set (accepted s) \<subseteq> set (accepted t)"
  shows "progress s t"
proof (rule progressI)
  show "sinv t" and "dead s \<subseteq> dead t" using assms(1) frame by simp_all
  show "i \<in> set (accepted t)" if "status_of t i = Some Sent" for i
    using that frame assms(2) log unfolding sent_accepted_def by auto
  show "status_of t i \<noteq> None \<or> i \<in> dead t \<or> i \<in> set (accepted t)" if "status_of s i \<noteq> None" for i
    using that frame by simp
qed (fact log)

lemma job_ok_mono: "job_ok j s \<Longrightarrow> set (accepted s) \<subseteq> set (accepted t) \<Longrightarrow> job_ok j t"
  by (cases j) auto

lemma progress_fetch:
  assumes "sinv s" and sent: "sent_accepted s"
    and run: "fetch_next_to_process (sys_storage d) l s = (r, t)"
  shows "progress s t"
proof (rule progressI)
  note f = fetch_sent[OF assms(1) run]
  note log = storage_log(1)[OF run]
  show "sinv t" and "dead s \<subseteq> dead t" using f by simp_all
  show "set (accepted s) \<subseteq> set (accepted t)" using log by simp
  show "i \<in> set (accepted t)" if "status_of t i = Some Sent" for i
    using f that sent unfolding log sent_accepted_def by blast
  show "status_of t i \<noteq> None \<or> i \<in> dead t \<or> i \<in> set (accepted t)" if i: "status_of s i \<noteq> None" for i
  proof -
    from i obtain x where "status_of s i = Some x" by blast
    from fetch_forward[OF assms(1) run this] show ?thesis by auto
  qed
qed

lemma progress_update:
  assumes "sinv s" and sent: "sent_accepted s" and ids: "set ids \<subseteq> set (accepted s)"
    and run: "update_status (sys_storage d) ids Sent s = (r, t)"
  shows "progress s t"
proof (rule progressI)
  note log = storage_log(2)[OF run]
  note f = update_sent[OF assms(1) run]
  show "sinv t" and "dead s \<subseteq> dead t" using update_any[OF assms(1) run] by simp_all
  show "set (accepted s) \<subseteq> set (accepted t)" using log by simp
  show "i \<in> set (accepted t)" if "status_of t i = Some Sent" for i
    using f that sent ids unfolding log sent_accepted_def by blast
  show "status_of t i \<noteq> None \<or> i \<in> dead t \<or> i \<in> set (accepted t)" if i: "status_of s i \<noteq> None" for i
  proof -
    from i obtain x where "status_of s i = Some x" by blast
    from update_sent_forward[OF assms(1) run this] show ?thesis by auto
  qed
qed

lemma progress_publish:
  assumes "sinv s" and "sent_accepted s" and run: "publish (sys_transport d) e s = (r, t)"
  shows "progress s t"
proof (rule progress_same[OF assms(1,2) step_frames(1)[OF run]])
  show "set (accepted s) \<subseteq> set (accepted t)" using publish_log[OF run] by auto
qed

lemma progress_note:
  assumes "sinv s" and "sent_accepted s"
  shows "note_success (sys_heap d) i s = (r, t) \<Longrightarrow> progress s t"
    and "note_failure (sys_heap d) i s = (r, t) \<Longrightarrow> progress s t"
    and "progress s (emit_success (sys_metrics d) ty s)"
    and "progress s (emit_error (sys_metrics d) ty s)"
  using progress_same[OF assms step_frames(2)] progress_same[OF assms step_frames(3)]
    progress_same[OF assms step_frames(4)] progress_same[OF assms step_frames(5)] note_log
  by (metis order_refl)+

lemma progress_insert:
  assumes "sinv s" and sent: "sent_accepted s" and pend: "status e = Pending"
    and run: "insert_event (sys_writer d) e s = (r, t)"
  shows "progress s t"
proof (rule progressI)
  note log = other_logs(1)[OF run]
  note law = insert_law[OF assms(1) run]
  show "sinv t" and "dead s \<subseteq> dead t" using law by simp_all
  show "set (accepted s) \<subseteq> set (accepted t)" using log by simp
  show "i \<in> set (accepted t)" if "status_of t i = Some Sent" for i
    using law that sent pend unfolding log sent_accepted_def by (auto split: if_splits)
  show "status_of t i \<noteq> None \<or> i \<in> dead t \<or> i \<in> set (accepted t)" if i: "status_of s i \<noteq> None" for i
    using law i by (auto split: if_splits)
qed

lemma progress_collect:
  assumes "sinv s" and sent: "sent_accepted s" and run: "delete_garbage (sys_storage d) s = (r, t)"
  shows "progress s t"
proof (rule progressI)
  note log = other_logs(2)[OF run]
  note law = garbage[OF assms(1) run]
  show "sinv t" and "dead s \<subseteq> dead t" using law by simp_all
  show "set (accepted s) \<subseteq> set (accepted t)" using log by simp
  show "i \<in> set (accepted t)" if "status_of t i = Some Sent" for i
    using law that sent unfolding log sent_accepted_def by (metis option.distinct(1))
  show "status_of t i \<noteq> None \<or> i \<in> dead t \<or> i \<in> set (accepted t)" if i: "status_of s i \<noteq> None" for i
    using law i sent unfolding log sent_accepted_def by metis
qed

lemma progress_quarantine:
  assumes "sinv s" and sent: "sent_accepted s"
    and run: "quarantine_events (sys_storage d) es s = (r, t)"
  shows "progress s t"
proof (rule progressI)
  note log = other_logs(3)[OF run]
  have law: "sinv t \<and> (status_of t = status_of s \<and> dead t = dead s \<or>
      status_of t = (\<lambda>i. if i \<in> dlq_id ` set es then None else status_of s i) \<and>
      dead t = dead s \<union> {i \<in> dlq_id ` set es. status_of s i \<noteq> None})"
    using run quarantine_ok[OF assms(1)] quarantine_err[OF assms(1)] by (cases r) blast+
  show "sinv t" and "dead s \<subseteq> dead t" using law by auto
  show "set (accepted s) \<subseteq> set (accepted t)" using log by simp
  show "i \<in> set (accepted t)" if "status_of t i = Some Sent" for i
    using law that sent unfolding log sent_accepted_def by (auto split: if_splits)
  show "status_of t i \<noteq> None \<or> i \<in> dead t \<or> i \<in> set (accepted t)" if i: "status_of s i \<noteq> None" for i
    using law i by (auto split: if_splits)
qed

lemma progress_trans: "progress s t \<Longrightarrow> progress t u \<Longrightarrow> progress s u"
  by (auto simp: progress_def)

lemma progress_inv: "progress s t \<Longrightarrow> sinv t \<and> sent_accepted t"
  by (simp add: progress_def)

text \<open>Every call of a worker makes progress and leaves its program counter truthful.\<close>

lemma worker_step_progress:
  assumes inv: "sinv s" "sent_accepted s" and job: "job_ok j s"
    and run: "worker_step d (j, s) = (j', t)"
  shows "progress s t \<and> job_ok j' t"
  using run
proof (cases j)
  case Idle
  obtain r u where f: "fetch_next_to_process (sys_storage d) (batch_size (sys_config d)) s = (r, u)"
    by fastforce
  with run Idle have "t = u" "job_ok j' u" by (auto split: sum.splits if_splits)
  with progress_fetch[OF inv f] show ?thesis by simp
next
  case (Batch n es ids)
  show ?thesis
  proof (cases es)
    case Nil
    show ?thesis
    proof (cases "ids = []")
      case True
      then show ?thesis using run Batch Nil progress_same[OF inv] by auto
    next
      case False
      obtain r u where u: "update_status (sys_storage d) ids Sent s = (r, u)" by fastforce
      with run Batch Nil False have "t = u" "job_ok j' u" by (auto split: sum.splits)
      with progress_update[OF inv _ u] job Batch show ?thesis by simp
    qed
  next
    case (Cons e es')
    obtain r u where p: "publish (sys_transport d) e s = (r, u)" by fastforce
    have log: "set (accepted s) \<subseteq> set (accepted u)" using publish_log[OF p] by auto
    have acc: "r = Inr v \<Longrightarrow> eid e \<in> set (accepted u)" for v using p publish_ok by simp
    from run Batch Cons p have "t = u"
      "j' = Noting n e (case r of Inl _ \<Rightarrow> False | Inr _ \<Rightarrow> True) es' ids" by (auto split: sum.splits)
    with progress_publish[OF inv p] job Batch log acc show ?thesis by (auto split: sum.splits)
  qed
next
  case (Noting n e ok es ids)
  show ?thesis
  proof (cases ok)
    case True
    obtain r u where n: "note_success (sys_heap d) (eid e) s = (r, u)" by fastforce
    note pr = progress_note(1)[OF inv n]
    let ?v = "emit_success (sys_metrics d) (display_event_type (event_type e)) u"
    have pv: "progress s ?v"
      using progress_trans[OF pr] progress_note(3) progress_inv[OF pr] by blast
    have "accepted ?v = accepted s" "accepted u = accepted s" using note_log n by simp_all
    with run Noting True n pr pv job show ?thesis by (auto split: sum.splits)
  next
    case False
    obtain r u where n: "note_failure (sys_heap d) (eid e) s = (r, u)" by fastforce
    note pr = progress_note(2)[OF inv n]
    let ?v = "emit_error (sys_metrics d) (display_event_type (event_type e)) u"
    have pv: "progress s ?v"
      using progress_trans[OF pr] progress_note(4) progress_inv[OF pr] by blast
    have "accepted ?v = accepted s" "accepted u = accepted s" using note_log n by simp_all
    with run Noting False n pr pv job show ?thesis by (auto split: sum.splits)
  qed
next
  case (Finished r)
  then show ?thesis using run progress_same[OF inv] by auto
qed

lemma step_progress:
  assumes step: "sys_step d S T" and inv: "sys_inv S"
  shows "sys_inv T \<and> progress (shared S) (shared T)"
proof -
  have s: "sinv (shared S)" "sent_accepted (shared S)" and jobs: "\<And>k. job_ok (workers S k) (shared S)"
    using inv by (simp_all add: sys_inv_def)
  have keep: "sys_inv U" if "progress (shared S) (shared U)"
    and "\<And>k. workers U k = workers S k \<or> job_ok (workers U k) (shared U)" for U
    using progress_inv[OF that(1)] that job_ok_mono[OF jobs] unfolding sys_inv_def progress_def by metis
  have self: "progress (shared S) (shared S)" by (rule progress_same[OF s]) simp_all
  show ?thesis
    using step
  proof (cases rule: sys_step.cases)
    case (work k j t)
    note p = worker_step_progress[OF s jobs work(2)]
    have "sys_inv T" by (rule keep) (use p work(1) in auto)
    with p work(1) show ?thesis by simp
  next
    case (crash k)
    have "sys_inv T" by (rule keep) (use self crash in auto)
    with self crash show ?thesis by simp
  next
    case (insert h ty p tok r t)
    have "progress (shared S) t"
      by (rule progress_insert[OF s _ insert(2)]) (simp add: new_event_def Event_new_def)
    moreover from this have "sys_inv T" by (intro keep) (use insert in auto)
    ultimately show ?thesis using insert by simp
  next
    case (collect r t)
    from collect(2) have "progress (shared S) t"
      by (intro progress_collect[OF s, of r]) (simp add: collect_garbage_def GarbageCollector_new_def)
    moreover from this have "sys_inv T" by (intro keep) (use collect in auto)
    ultimately show ?thesis using collect by simp
  next
    case (reap hp r t)
    have "progress (shared S) t"
      using progress_same[OF s other_frames(1)[OF reap(2,3)]] other_logs(4)[OF reap(2,3)] by simp
    moreover from this have "sys_inv T" by (intro keep) (use reap in auto)
    ultimately show ?thesis using reap by simp
  next
    case (quarantine r t)
    have "progress (shared S) t" by (rule progress_quarantine[OF s quarantine(3)])
    moreover from this have "sys_inv T" by (intro keep) (use quarantine in auto)
    ultimately show ?thesis using quarantine by simp
  next
    case reaper_crash
    have "sys_inv T" by (rule keep) (use self reaper_crash in auto)
    with self reaper_crash show ?thesis by simp
  next
    case (pass n)
    have "progress (shared S) (sys_sleep d n (shared S))"
      by (rule progress_same[OF s]) (simp_all add: other_frames other_logs)
    moreover from this have "sys_inv T" by (intro keep) (use pass in auto)
    ultimately show ?thesis using pass by simp
  qed
qed

lemma steps_progress:
  assumes "sys_steps d S T" and "sys_inv S"
  shows "sys_inv T \<and> (\<forall>i. safe (shared S) i \<longrightarrow> safe (shared T) i)"
  using assms
proof (induction rule: rtranclp_induct)
  case base
  then show ?case by simp
next
  case (step T U)
  then have T: "sys_inv T" "\<forall>i. safe (shared S) i \<longrightarrow> safe (shared T) i" by auto
  from step_progress[OF step.hyps(2) T(1)] T(2) show ?case by (auto simp: progress_def)
qed

lemma inserted_safe:
  assumes "sinv s" and "insert_event (sys_writer d) e s = (Inr u, t)"
  shows "safe t (eid e)"
  using insert_law[OF assms] by (auto simp: safe_def)

end

end
