(* ===== verification/World.thy ===== *)
theory World
  imports Postgres Redis Kafka Examples Interleaving "HOL-Library.AList"
begin

text \<open>
  A reference environment. The components are written against parameters (a channel, a Kafka
  producer, a Redis connection, a cache, text conversions, a metrics recorder); here each is given
  one executable implementation that keeps its documentation, all acting on one world: the
  PostgreSQL tables of \<open>pg_state\<close>, a channel with its receiver, a Kafka log, and a Redis keyspace
  whose commands fail as \<open>redis_script\<close> says. The contracts of the library are interpreted on the
  model's storage, heap, provider and transports in this world. Nothing here is code of the
  repository.
\<close>

section \<open>The world\<close>

record ('p, 'j) world = "'j pg_state" +
  channel :: "'p message list"
  receiver_open :: bool
  kafka_log :: "future_record list"
  kafka_up :: bool
  kafka_acks :: "bool list"
  redis_now :: nat
  redis_strings :: "(string \<times> string \<times> nat) list"
  redis_zsets :: "(string \<times> (string \<times> nat) list) list"
  redis_script :: "(bool \<times> string) option list"
  cached_keys :: "(string \<times> nat option) list"
  metrics_log :: "(string \<times> labels) list"
  stop_flag :: bool
  sender_gone :: bool

text \<open>
  The clock of Redis and of the cache counts nanoseconds. A string key carries the instant it
  expires at, a cache entry the instant it is dropped at, when it has a time to live.
\<close>

definition elapse :: "nat \<Rightarrow> ('p, 'j) world \<Rightarrow> ('p, 'j) world" where
  "elapse d s = s\<lparr> redis_now := redis_now s + d \<rparr>"

text \<open>One entry of a script: the command is answered, or it is applied or not and then fails.\<close>

definition redis_cmd :: "(('p, 'j) world, string, 'r) call \<Rightarrow> (('p, 'j) world, string, 'r) call" where
  "redis_cmd body s =
     (let t = s\<lparr> redis_script := tl (redis_script s) \<rparr>
      in case redis_script s of
           Some (True, e) # _ \<Rightarrow> (Inl e, snd (body t))
         | Some (False, e) # _ \<Rightarrow> (Inl e, t)
         | _ \<Rightarrow> body t)"

section \<open>Redis\<close>

definition str_lookup :: "nat \<Rightarrow> (string \<times> string \<times> nat) list \<Rightarrow> string \<Rightarrow> string option" where
  "str_lookup now entries k =
     (case map_of entries k of
        None \<Rightarrow> None
      | Some (v, expiry) \<Rightarrow> if now < expiry then Some v else None)"

definition world_str :: "('p, 'j) world \<Rightarrow> string \<Rightarrow> string option" where
  "world_str s = str_lookup (redis_now s) (redis_strings s)"

definition zset_list :: "('p, 'j) world \<Rightarrow> string \<Rightarrow> (string \<times> nat) list" where
  "zset_list s k = (case map_of (redis_zsets s) k of None \<Rightarrow> [] | Some z \<Rightarrow> z)"

definition world_zset :: "('p, 'j) world \<Rightarrow> string \<Rightarrow> string \<Rightarrow> nat option" where
  "world_zset s k = map_of (zset_list s k)"

definition wrong_type :: string where
  "wrong_type = ''WRONGTYPE Operation against a key holding the wrong kind of value''"

definition on_zset :: "string \<Rightarrow> (('p, 'j) world, string, 'r) call \<Rightarrow>
    (('p, 'j) world, string, 'r) call" where
  "on_zset k body s = (if world_str s k \<noteq> None then (Inl wrong_type, s) else body s)"

definition put_zset :: "string \<Rightarrow> (string \<times> nat) list \<Rightarrow> ('p, 'j) world \<Rightarrow> ('p, 'j) world" where
  "put_zset k z s = s\<lparr> redis_zsets := (k, z) # redis_zsets s \<rparr>"

definition world_set_nx_ex :: "string \<Rightarrow> string \<Rightarrow> nat \<Rightarrow> (('p, 'j) world, string, string option) call" where
  "world_set_nx_ex k v n =
     redis_cmd (\<lambda>s.
       if n = 0 then (Inl ''ERR invalid expire time in set command'', s)
       else if world_str s k \<noteq> None \<or> zset_list s k \<noteq> [] then (Inr None, s)
       else (Inr (Some ''OK''),
             s\<lparr> redis_strings := (k, v, redis_now s + n * nanos_per_sec) # redis_strings s \<rparr>))"

definition world_zincrby :: "string \<Rightarrow> int \<Rightarrow> string \<Rightarrow> (('p, 'j) world, string, f64) call" where
  "world_zincrby k d mem =
     redis_cmd (on_zset k (\<lambda>s.
       let n = case_option 0 id (world_zset s k mem) + nat d
       in (Inr (Finite (of_nat n)), put_zset k ((mem, n) # zset_list s k) s)))"

definition world_zrem :: "string \<Rightarrow> string \<Rightarrow> (('p, 'j) world, string, int) call" where
  "world_zrem k mem =
     redis_cmd (on_zset k (\<lambda>s.
       (Inr (if world_zset s k mem = None then 0 else 1),
        put_zset k (AList.delete mem (zset_list s k)) s)))"

definition score_digits :: "nat \<Rightarrow> string" where
  "score_digits n = replicate n CHR ''i''"

definition world_zrangebyscore :: "string \<Rightarrow> nat \<Rightarrow> (('p, 'j) world, string, string list) call" where
  "world_zrangebyscore k lo =
     redis_cmd (on_zset k (\<lambda>s.
       (Inr (concat (map (\<lambda>(m, c). [m, score_digits c])
          (filter (\<lambda>(m, c). lo \<le> c) (AList.clearjunk (zset_list s k))))), s)))"

definition world_zremrangebyscore :: "string \<Rightarrow> nat \<Rightarrow> (('p, 'j) world, string, int) call" where
  "world_zremrangebyscore k lo =
     redis_cmd (on_zset k (\<lambda>s.
       (Inr (int (length (filter (\<lambda>(m, c). lo \<le> c) (AList.clearjunk (zset_list s k))))),
        put_zset k (filter (\<lambda>(m, c). c < lo) (AList.clearjunk (zset_list s k))) s)))"

definition world_conn :: "('p, 'j) world redis_conn" where
  "world_conn =
     \<lparr> set_nx_ex = world_set_nx_ex, zincrby = world_zincrby, zrem = world_zrem,
       zrangebyscore = world_zrangebyscore, zremrangebyscore = world_zremrangebyscore,
       run_script = (\<lambda>body. body) \<rparr>"

definition cache_lookup :: "nat \<Rightarrow> (string \<times> nat option) list \<Rightarrow> string \<Rightarrow> bool" where
  "cache_lookup now entries k =
     (case map_of entries k of
        None \<Rightarrow> False
      | Some None \<Rightarrow> True
      | Some (Some dropped) \<Rightarrow> now < dropped)"

definition cached :: "string \<Rightarrow> ('p, 'j) world \<Rightarrow> bool" where
  "cached k s = cache_lookup (redis_now s) (cached_keys s) k"

definition world_cache :: "nat option \<Rightarrow> ('p, 'j) world moka_cache" where
  "world_cache life =
     \<lparr> contains_key = cached,
       cache_insert = (\<lambda>k s. s\<lparr> cached_keys :=
         (k, map_option (\<lambda>d. redis_now s + d) life) # cached_keys s \<rparr>) \<rparr>"

text \<open>Texts: a UUID and a score in unary.\<close>

definition world_text :: text_codec where
  "world_text =
     \<lparr> uuid_to_string = (\<lambda>u. score_digits (unat u)),
       parse_uuid = (\<lambda>x. Inr (of_nat (length x))),
       parse_f64 = (\<lambda>x. Inr (Finite (of_nat (length x)))) \<rparr>"

definition world_lib :: "(('p, 'j) world, unit) redis_client_lib" where
  "world_lib =
     \<lparr> client_open = (\<lambda>url. if url = [] then Inl ''empty'' else Inr ()),
       client_connect = (\<lambda>c s. (Inr world_conn, s)),
       moka_build = (\<lambda>cap life. world_cache life) \<rparr>"

text \<open>The provider \<open>RedisProvider::new\<close> returns here, with or without the cache feature.\<close>

definition world_provider :: "bool \<Rightarrow> redis_token_config \<Rightarrow> ('p, 'j) world redis_provider" where
  "world_provider moka cfg =
     \<lparr> connection = world_conn, local_cache = (if moka then Some (world_cache (Some (ttl cfg))) else None),
       rp_config = cfg \<rparr>"

lemma world_provider_new:
  "RedisProvider_new moka world_lib ''redis://localhost:6379'' cfg s = (Inr (world_provider moka cfg), s)"
  by (simp add: RedisProvider_new_def world_lib_def world_provider_def)

section \<open>The Redis server keeps its documentation\<close>

lemma str_lookup_Cons:
  "str_lookup now ((k, v, e) # entries) =
     (str_lookup now entries)(k := if now < e then Some v else None)"
  by (simp add: str_lookup_def fun_eq_iff)

lemma cache_lookup_Cons:
  "cache_lookup now ((k, e) # entries) a \<longleftrightarrow>
     (if a = k then (case e of None \<Rightarrow> True | Some dropped \<Rightarrow> now < dropped) else cache_lookup now entries a)"
  by (simp add: cache_lookup_def)

lemma redis_cmd_ok:
  assumes "redis_cmd body s = (Inr x, t)"
  obtains u where "body u = (Inr x, t)" and "world_str u = world_str s" and "world_zset u = world_zset s"
    and "cached_keys u = cached_keys s" and "redis_now u = redis_now s"
proof -
  have "body (s\<lparr> redis_script := tl (redis_script s) \<rparr>) = (Inr x, t)"
    using assms by (auto simp: redis_cmd_def Let_def split: list.splits option.splits prod.splits bool.splits)
  then show thesis
    by (rule that) (simp_all add: world_str_def world_zset_def zset_list_def fun_eq_iff)
qed

lemma redis_cmd_keeps:
  assumes "redis_cmd body s = (q, t)" and "\<And>u. f (u\<lparr> redis_script := tl (redis_script u) \<rparr>) = f u"
    and "\<And>u p v. body u = (p, v) \<Longrightarrow> f u = f s \<Longrightarrow> f v = f u"
  shows "f t = f s"
proof -
  let ?s1 = "s\<lparr> redis_script := tl (redis_script s) \<rparr>"
  obtain p v where b: "body ?s1 = (p, v)" by fastforce
  have "t = v \<or> t = ?s1"
    using assms(1) b by (auto simp: redis_cmd_def Let_def split: list.splits option.splits prod.splits bool.splits)
  then show ?thesis using assms(2)[of s] assms(3)[OF b] by auto
qed

lemma script_views [simp]:
  "world_str (s\<lparr> redis_script := x \<rparr>) = world_str s"
  "world_zset (s\<lparr> redis_script := x \<rparr>) = world_zset s"
  "world_zset (s\<lparr> redis_strings := y \<rparr>) = world_zset s"
  "cached k (s\<lparr> redis_script := x \<rparr>) = cached k s"
  by (simp_all add: world_str_def world_zset_def zset_list_def cached_def fun_eq_iff)

lemma redis_cmd_wrong_type:
  assumes "redis_cmd (on_zset k body) s = (q, t)" and "world_str s k \<noteq> None"
  shows "(\<exists>e. q = Inl e) \<and> world_str t = world_str s \<and> world_zset t = world_zset s"
  using assms
  by (auto simp: redis_cmd_def on_zset_def Let_def split: list.splits option.splits prod.splits bool.splits)

lemma on_zset_ok: "on_zset k body s = (Inr x, t) \<longleftrightarrow> world_str s k = None \<and> body s = (Inr x, t)"
  by (simp add: on_zset_def)

lemma zset_list_Nil: "zset_list s k = [] \<longleftrightarrow> world_zset s k = Map.empty"
  by (simp add: world_zset_def)

lemma map_of_zset_list [simp]: "map_of (zset_list s k) = world_zset s k"
  by (simp add: world_zset_def)

lemma put_zset_views [simp]:
  "world_str (put_zset k z s) = world_str s"
  "world_zset (put_zset k z s) = (world_zset s)(k := map_of z)"
  "cached_keys (put_zset k z s) = cached_keys s"
  by (auto simp: put_zset_def world_str_def world_zset_def zset_list_def fun_eq_iff)

lemma map_of_filter_clearjunk:
  fixes z :: "('a \<times> 'b) list"
  shows "map_of (filter (\<lambda>(m, c). P c) (AList.clearjunk z)) m =
     (case map_of z m of None \<Rightarrow> None | Some c \<Rightarrow> if P c then Some c else None)"
proof -
  have "map_of (filter (\<lambda>(m, c). P c) xs) m = (case map_of xs m of None \<Rightarrow> None | Some c \<Rightarrow> if P c then Some c else None)"
    if "distinct (map fst xs)" for xs :: "('a \<times> 'b) list"
    using that
  proof (induction xs)
    case Nil
    then show ?case by simp
  next
    case (Cons x xs)
    have "m \<notin> fst ` set xs \<Longrightarrow> map_of xs m = None" by (simp add: map_of_eq_None_iff)
    with Cons show ?case by (cases x) (auto split: option.splits)
  qed
  from this[OF distinct_clearjunk] show ?thesis by (simp add: map_of_clearjunk)
qed

lemma zrange_pairs:
  fixes s :: "('p, 'j) world" and lo :: nat and k :: string
  defines "ps \<equiv> filter (\<lambda>(m, c). lo \<le> c) (AList.clearjunk (zset_list s k))"
  shows "distinct (map fst ps) \<and> set ps = {(m, c). world_zset s k m = Some c \<and> lo \<le> c}"
proof
  show "distinct (map fst ps)" by (simp add: ps_def distinct_map_filter)
  have "(m, c) \<in> set (AList.clearjunk (zset_list s k)) \<longleftrightarrow> world_zset s k m = Some c" for m c
    by (metis distinct_clearjunk map_of_clearjunk map_of_eq_Some_iff world_zset_def)
  then show "set ps = {(m, c). world_zset s k m = Some c \<and> lo \<le> c}" by (auto simp: ps_def)
qed

lemma world_service_provider [simp]:
  "connection (world_provider moka cfg) = world_conn" "rp_config (world_provider moka cfg) = cfg"
  "local_cache (world_provider moka cfg) = (if moka then Some (world_cache (Some (ttl cfg))) else None)"
  by (simp_all add: world_provider_def)

lemma world_conn_simps [simp]:
  "set_nx_ex world_conn = world_set_nx_ex" "zincrby world_conn = world_zincrby"
  "zrem world_conn = world_zrem" "zrangebyscore world_conn = world_zrangebyscore"
  "zremrangebyscore world_conn = world_zremrangebyscore" "run_script world_conn = (\<lambda>body. body)"
  by (simp_all add: world_conn_def)

interpretation server: redis_service "world_provider moka cfg" world_text score_digits world_str world_zset
  for moka :: bool and cfg :: redis_token_config
proof (unfold_locales, unfold world_service_provider world_conn_simps, goal_cases)
  case (1 u)
  then show ?case by (simp add: world_text_def score_digits_def)
next
  case (2 n)
  then show ?case by (simp add: world_text_def score_digits_def)
next
  case (3 k v n s r t)
  from 3(1)[unfolded world_set_nx_ex_def] show ?case
    by (rule redis_cmd_ok)
      (use 3(2) in \<open>auto simp: world_str_def str_lookup_Cons zset_list_Nil nanos_per_sec_def
        split: if_splits\<close>)
next
  case (4 k v n s r t)
  from 4(1)[unfolded world_set_nx_ex_def] show ?case
    by (rule redis_cmd_ok) (use 4(2) in \<open>auto simp: zset_list_Nil split: if_splits\<close>)
next
  case (5 k v s q t)
  show ?case
  proof (rule ccontr)
    assume "\<nexists>e. q = Inl e"
    with 5 obtain x where "world_set_nx_ex k v 0 s = (Inr x, t)" by (cases q) auto
    then show False unfolding world_set_nx_ex_def by (rule redis_cmd_ok) simp
  qed
next
  case (6 k mem s x t)
  from 6(1)[unfolded world_zincrby_def] show ?case
    by (rule redis_cmd_ok) (auto simp: on_zset_ok Let_def)
next
  case (7 s k d mem q t)
  from redis_cmd_wrong_type[OF 7(2)[unfolded world_zincrby_def] 7(1)] show ?case .
next
  case (8 k mem s y t)
  from 8(1)[unfolded world_zrem_def] show ?case
    by (rule redis_cmd_ok) (auto simp: on_zset_ok delete_conv')
next
  case (9 k lo s items t)
  from 9(1)[unfolded world_zrangebyscore_def] show ?case
  proof (rule redis_cmd_ok)
    fix u assume "on_zset k (\<lambda>s. (Inr (concat (map (\<lambda>(m, c). [m, score_digits c])
          (filter (\<lambda>(m, c). lo \<le> c) (AList.clearjunk (zset_list s k))))), s)) u = (Inr items, t)"
      and "world_str u = world_str s" "world_zset u = world_zset s"
    then show ?thesis using zrange_pairs[of lo u k] by (auto simp: on_zset_ok)
  qed
next
  case (10 k lo s z t)
  from 10(1)[unfolded world_zremrangebyscore_def] show ?case
    by (rule redis_cmd_ok)
      (auto simp: on_zset_ok map_of_filter_clearjunk[of "\<lambda>c. c < lo"] fun_eq_iff not_le split: option.splits)
next
  case (11 body s items t)
  then show ?case .
qed

section \<open>Redis commands leave the rest of the world alone\<close>

definition redis_frame :: "('p, 'j) world \<Rightarrow> ('p, 'j) world \<Rightarrow> bool" where
  "redis_frame s t \<longleftrightarrow>
     (\<exists>a b c. t = s\<lparr> redis_strings := a, redis_zsets := b, redis_script := c \<rparr>)"

lemma redis_frame_refl: "redis_frame s s"
  unfolding redis_frame_def
  by (intro exI[of _ "redis_strings s"] exI[of _ "redis_zsets s"] exI[of _ "redis_script s"]) simp

lemma redis_frame_trans: "redis_frame s t \<Longrightarrow> redis_frame t u \<Longrightarrow> redis_frame s u"
  unfolding redis_frame_def by fastforce

lemma redis_frame_script: "redis_frame s (s\<lparr> redis_script := x \<rparr>)"
  unfolding redis_frame_def
  by (intro exI[of _ "redis_strings s"] exI[of _ "redis_zsets s"] exI[of _ x]) simp

lemma redis_frame_strings: "redis_frame s (s\<lparr> redis_strings := x \<rparr>)"
  unfolding redis_frame_def
  by (intro exI[of _ x] exI[of _ "redis_zsets s"] exI[of _ "redis_script s"]) simp

lemma redis_frame_put: "redis_frame s (put_zset k z s)"
  unfolding redis_frame_def put_zset_def
  by (intro exI[of _ "redis_strings s"] exI[of _ "(k, z) # redis_zsets s"]
      exI[of _ "redis_script s"]) simp

text \<open>Everything but the Redis fields is unchanged along a frame.\<close>

lemma redis_frame_views:
  assumes "redis_frame s t"
  shows "pg_ok t = pg_ok s" "pg_status t = pg_status s" "pg_dead t = pg_dead s"
    "pg_calm cfg t = pg_calm cfg s" "pg_backlog t = pg_backlog s" "channel t = channel s"
    "kafka_log t = kafka_log s" "cached_keys t = cached_keys s"
    "outbox_events t = outbox_events s" "outbox_dead_letters t = outbox_dead_letters s"
    "redis_now t = redis_now s" "cached k t = cached k s"
  using assms
  by (auto simp: redis_frame_def pg_ok_def pg_status_def pg_dead_def pg_calm_def pg_backlog_def
      horizon_def cached_def)

lemma redis_cmd_frame:
  assumes "\<And>u p v. body u = (p, v) \<Longrightarrow> redis_frame u v" and "redis_cmd body s = (q, t)"
  shows "redis_frame s t"
proof -
  let ?s1 = "s\<lparr> redis_script := tl (redis_script s) \<rparr>"
  obtain p v where b: "body ?s1 = (p, v)" by fastforce
  have "t = v \<or> t = ?s1"
    using assms(2) b
    by (auto simp: redis_cmd_def Let_def split: list.splits option.splits prod.splits bool.splits)
  then show ?thesis
    using assms(1)[OF b] redis_frame_script redis_frame_trans by blast
qed

lemma and_then_frame:
  assumes "\<And>u p v. a u = (p, v) \<Longrightarrow> redis_frame u v"
    and "\<And>x u p v. k x u = (p, v) \<Longrightarrow> redis_frame u v" and "and_then a k s = (q, t)"
  shows "redis_frame s t"
  using assms(3) assms(1,2) redis_frame_trans
  by (fastforce simp: and_then_def split: prod.splits sum.splits)

lemma redis_call_frames:
  "world_set_nx_ex k v n s = (q1, t) \<Longrightarrow> redis_frame s t"
  "world_zincrby k d mem s = (q2, t) \<Longrightarrow> redis_frame s t"
  "world_zrem k mem s = (q3, t) \<Longrightarrow> redis_frame s t"
  "world_zrangebyscore k lo s = (q4, t) \<Longrightarrow> redis_frame s t"
  "world_zremrangebyscore k lo s = (q5, t) \<Longrightarrow> redis_frame s t"
  unfolding world_set_nx_ex_def world_zincrby_def world_zrem_def world_zrangebyscore_def
    world_zremrangebyscore_def
  by (erule redis_cmd_frame[rotated];
      auto simp: on_zset_def Let_def redis_frame_refl redis_frame_put redis_frame_strings
        split: if_splits)+

lemma infrastructure_frame:
  "(\<And>u p v. c u = (p, v) \<Longrightarrow> redis_frame u v) \<Longrightarrow> infrastructure_error c s = (q, t) \<Longrightarrow> redis_frame s t"
  by (auto simp: infrastructure_error_def split: prod.splits sum.splits)

lemma heap_frames:
  "redis_record_failure tc (world_provider moka cfg) i s = (q1, t) \<Longrightarrow> redis_frame s t"
  "redis_record_success tc (world_provider moka cfg) i s = (q2, t) \<Longrightarrow> redis_frame s t"
  unfolding redis_record_failure_def redis_record_success_def
  by (erule and_then_frame[rotated 2]; (erule infrastructure_frame[rotated])?;
      auto simp: redis_frame_refl dest: redis_call_frames)+

lemma script_frame:
  "drain_script world_conn k lo s = (q, t) \<Longrightarrow> redis_frame s t"
  unfolding drain_script_def
  by (erule and_then_frame[rotated 2]) (auto simp: redis_frame_refl and_then_def dest!: redis_call_frames
    split: if_splits prod.splits sum.splits)

lemma drain_frame:
  "redis_drain_exceeded tc (world_provider moka cfg) thr s = (q, t) \<Longrightarrow> redis_frame s t"
  unfolding redis_drain_exceeded_def
  by (erule and_then_frame[rotated 2]; (erule infrastructure_frame[rotated])?)
    (auto simp: redis_frame_refl throw_def ret_def dest: script_frame split: sum.splits)

section \<open>The other collaborators\<close>

definition world_tx :: "(('p, 'j) world, 'p) sender" where
  "world_tx msg s =
     (if receiver_open s then (Inr (), s\<lparr> channel := channel s @ [msg] \<rparr>)
      else (Inl ''channel closed'', s))"

text \<open>
  The Kafka broker writes what it is sent while it is up; \<open>kafka_acks\<close> says which acknowledgements
  arrive (all of them, once it is used up).
\<close>

definition world_producer :: "('p, 'j) world kafka_producer" where
  "world_producer =
     \<lparr> send = (\<lambda>r timeout s.
         if \<not> kafka_up s then (Inl ''Message production error: BrokerTransportFailure'', s)
         else let t = s\<lparr> kafka_log := kafka_log s @ [r], kafka_acks := tl (kafka_acks s) \<rparr>
              in case kafka_acks s of
                   False # _ \<Rightarrow> (Inl ''Message production error: MessageTimedOut'', t)
                 | _ \<Rightarrow> (Inr (), t)) \<rparr>"

definition world_kafka :: "string \<Rightarrow> ('p, 'j) world kafka_transport" where
  "world_kafka tpc = \<lparr> kt_producer = world_producer, kt_topic = tpc \<rparr>"

definition world_payload :: "('p payload \<Rightarrow> string + bytes) \<Rightarrow> ('p \<Rightarrow> bytes) \<Rightarrow> 'p kafka_payload" where
  "world_payload enc key =
     \<lparr> to_vec = enc, kafka_key = key, uuid_text = (\<lambda>u. score_digits (unat u)),
       instant_text = (\<lambda>t. score_digits (nat t)) \<rparr>"

definition world_parse_id :: "string \<Rightarrow> event_id" where
  "world_parse_id x = EventId (of_nat (length x))"

definition world_metrics :: "('p, 'j) world metrics" where
  "world_metrics =
     \<lparr> counter = (\<lambda>name ls n s. s\<lparr> metrics_log := metrics_log s @ [(name, ls)] \<rparr>),
       histogram = (\<lambda>name ls s. s\<lparr> metrics_log := metrics_log s @ [(name, ls)] \<rparr>) \<rparr>"

definition world_rx :: "('p, 'j) world shutdown_rx" where
  "world_rx = \<lparr> borrow = stop_flag, channel_closed = sender_gone \<rparr>"

definition world_sleep :: "nat \<Rightarrow> ('p, 'j) world \<Rightarrow> ('p, 'j) world" where
  "world_sleep n s = s\<lparr> pg_now := pg_now s + 1000000 * int n \<rparr>"

interpretation chan: unbounded_channel world_tx channel
  by unfold_locales (auto simp: world_tx_def split: if_splits)

interpretation kafka: kafka_broker "world_payload enc key" "world_kafka tpc" world_parse_id kafka_log
  for enc :: "'p payload \<Rightarrow> string + bytes" and key :: "'p \<Rightarrow> bytes" and tpc :: string
proof
  fix i show "world_parse_id (uuid_text (world_payload enc key) (as_uuid i)) = i"
    by (cases i) (simp add: world_parse_id_def world_payload_def score_digits_def)
qed (auto simp: world_kafka_def world_producer_def Let_def split: if_splits list.splits bool.splits)

text \<open>
  The transports of the repository in this world: the two example publishers on the channel and the
  Kafka transport on the broker. \<open>published\<close> is what the transport's broker has taken, in order.
\<close>

datatype 'p broker =
    Tokio_channel
  | Flaky_channel
  | Kafka_topic "'p payload \<Rightarrow> string + bytes" "'p \<Rightarrow> bytes" string

fun world_publisher :: "'p broker \<Rightarrow> (('p, 'j) world, 'p) transport" where
  "world_publisher Tokio_channel = TokioEventPublisher world_tx"
| "world_publisher Flaky_channel = FlakyPublisher_new world_tx"
| "world_publisher (Kafka_topic enc key tpc) = KafkaTransport (world_payload enc key) (world_kafka tpc)"

fun published :: "'p broker \<Rightarrow> ('p, 'j) world \<Rightarrow> event_id list" where
  "published (Kafka_topic enc key tpc) s = map (record_event_id world_parse_id) (kafka_log s)"
| "published _ s = map (\<lambda>msg. case msg of Message e \<Rightarrow> eid e) (channel s)"

fun broker_down :: "'p broker \<Rightarrow> ('p, 'j) world \<Rightarrow> bool" where
  "broker_down (Kafka_topic enc key tpc) s \<longleftrightarrow> \<not> kafka_up s"
| "broker_down _ s \<longleftrightarrow> \<not> receiver_open s"

lemma broker_views [simp]:
  "broker_down b (s\<lparr> outbox_events := x \<rparr>) = broker_down b s"
  "published b (s\<lparr> outbox_events := x \<rparr>) = published b s"
  by (cases b; simp)+

lemma published_logs:
  "published Tokio_channel = chan.delivered" "published Flaky_channel = chan.delivered"
  "published (Kafka_topic enc key tpc) = kafka.kafka_accepted"
  by (simp_all add: fun_eq_iff chan.delivered_def kafka.kafka_accepted_def)

lemma published_cong: "channel t = channel s \<Longrightarrow> kafka_log t = kafka_log s \<Longrightarrow> published b t = published b s"
  by (cases b) simp_all

interpretation tokens: redis_tokens "world_provider moka cfg" world_text score_digits world_str world_zset
  for moka :: bool and cfg :: redis_token_config
proof (unfold_locales, unfold world_service_provider world_conn_simps, goal_cases)
  case (1 c a b s)
  then show ?case by (auto simp: world_cache_def cached_def cache_lookup_Cons split: if_splits)
next
  case (2 c b s)
  then show ?case
    by (auto simp: world_cache_def world_str_def world_zset_def zset_list_def fun_eq_iff split: if_splits)
next
  case (3 c k v n s q t a)
  then show ?case
    using redis_frame_views(12)[OF redis_call_frames(1)[OF 3(2)]]
    by (auto simp: world_cache_def split: if_splits)
qed

section \<open>The worker, the drain and the reaper in this world\<close>

definition world_heap :: "bool \<Rightarrow> bool \<Rightarrow> redis_token_config \<Rightarrow> ('p, 'j) world dlq_heap option" where
  "world_heap dlq moka rcfg =
     (if dlq then Some (RedisProvider_heap world_text (world_provider moka rcfg)) else None)"

definition same_db :: "('p, 'j) world \<Rightarrow> ('p, 'j) world \<Rightarrow> bool" where
  "same_db s t \<longleftrightarrow> outbox_events t = outbox_events s \<and> outbox_dead_letters t = outbox_dead_letters s \<and>
     pg_now t = pg_now s \<and> pg_script t = pg_script s"

lemma same_db_simps [simp]:
  "same_db s (s\<lparr> channel := x \<rparr>)" "same_db s (s\<lparr> metrics_log := y \<rparr>)"
  "same_db s (s\<lparr> kafka_log := z, kafka_acks := w \<rparr>)" "same_db s s"
  by (simp_all add: same_db_def)

lemma same_db_trans: "same_db s t \<Longrightarrow> same_db t u \<Longrightarrow> same_db s u"
  by (simp add: same_db_def)

lemma redis_frame_db: "redis_frame s t \<Longrightarrow> same_db s t"
  by (auto simp: redis_frame_def same_db_def)

lemma world_note_frames:
  "note_success (world_heap dlq moka rcfg) i s = (q1, t) \<Longrightarrow> redis_frame s t"
  "note_failure (world_heap dlq moka rcfg) i s = (q2, t) \<Longrightarrow> redis_frame s t"
  by (auto simp: world_heap_def redis_frame_refl dest: heap_frames split: if_splits)

lemma world_emit:
  "same_db s (emit_success (if metrics_on then Some world_metrics else None) ty s)"
  "same_db s (emit_error (if metrics_on then Some world_metrics else None) ty s)"
  "published b (emit_success (if metrics_on then Some world_metrics else None) ty s) = published b s"
  "published b (emit_error (if metrics_on then Some world_metrics else None) ty s) = published b s"
  by (auto simp: emit_success_def emit_error_def world_metrics_def intro: same_db_trans published_cong)

lemma tokio_db: "tokio_publish world_tx e s = (r, t) \<Longrightarrow> same_db s t"
  by (auto simp: tokio_publish_def world_tx_def split: if_splits)

lemma flaky_db: "flaky_publish world_tx e s = (r, t) \<Longrightarrow> same_db s t"
  by (auto simp: flaky_publish_def world_tx_def split: if_splits)

lemma kafka_db: "kafka_publish kp (world_kafka tpc) e s = (r, t) \<Longrightarrow> same_db s t"
  by (auto simp: kafka_publish_def world_kafka_def world_producer_def Let_def
      split: sum.splits if_splits list.splits bool.splits)

lemma pg_keeps_published:
  "pg_fetch_next_to_process c cfg l s = (r1, t) \<Longrightarrow> published b t = published b s"
  "pg_update_status ids x s = (r2, t) \<Longrightarrow> published b t = published b s"
  by (auto simp: pg_fetch_next_to_process_def pg_update_status_def database_error_def and_then_def
      run_stmt_def sql_claim_def sql_update_status_def Let_def advance_def
      split: option.splits pg_fault.splits prod.splits sum.splits intro!: published_cong)

definition world_recorder :: "bool \<Rightarrow> ('p, 'j) world metrics option" where
  "world_recorder metrics_on = (if metrics_on then Some world_metrics else None)"

lemma world_publisher_db: "publish (world_publisher b) e s = (r, t) \<Longrightarrow> same_db s t"
  by (cases b) (auto dest: tokio_db flaky_db kafka_db)

lemma publish_steps_keep_mono:
  "publish_steps_keep tr heap m R \<Longrightarrow> (\<And>s t. R s t \<Longrightarrow> Q s t) \<Longrightarrow> publish_steps_keep tr heap m Q"
  by (simp add: publish_steps_keep_def)

lemma world_batch_frame:
  assumes "\<And>e s r t. publish tr e s = (r, t) \<Longrightarrow> same_db s t"
  shows "publish_steps_keep tr (world_heap dlq moka rcfg) (world_recorder metrics_on) same_db"
  unfolding publish_steps_keep_def world_recorder_def
  by (intro conjI allI impI)
    (erule assms redis_frame_db[OF world_note_frames(1)] redis_frame_db[OF world_note_frames(2)]
      | rule world_emit)+

lemma same_db_tables:
  "same_db s t \<Longrightarrow> pg_ok t = pg_ok s \<and> pg_status t = pg_status s \<and> pg_dead t = pg_dead s"
  "same_db s t \<Longrightarrow> pg_calm cfg t = pg_calm cfg s \<and> pg_backlog t = pg_backlog s"
  by (simp_all add: same_db_def pg_ok_def pg_status_def pg_dead_def pg_calm_def pg_backlog_def
      horizon_def)

lemma transport_world_publisher: "transport_contract (world_publisher b) (published b)"
  using chan.tokio.transport_contract_axioms chan.flaky.transport_contract_axioms
    kafka.kafka.transport_contract_axioms
  by (cases b) (simp_all only: world_publisher.simps published_logs)

lemma redis_frame_published: "redis_frame s t \<Longrightarrow> published b t = published b s"
  by (rule published_cong) (simp_all add: redis_frame_views)

lemma world_log_frames:
  "note_success (world_heap dlq moka rcfg) i s = (q1, t) \<Longrightarrow> published b t = published b s"
  "note_failure (world_heap dlq moka rcfg) i s = (q2, t) \<Longrightarrow> published b t = published b s"
  "published b (emit_success (world_recorder metrics_on) ty s) = published b s"
  "published b (emit_error (world_recorder metrics_on) ty s) = published b s"
  "pg_fetch_next_to_process c cfg l s = (r1, t) \<Longrightarrow> published b t = published b s"
  "pg_update_status ids x s = (r2, t) \<Longrightarrow> published b t = published b s"
  by (simp_all add: world_recorder_def world_emit pg_keeps_published
      redis_frame_published[OF world_note_frames(1)] redis_frame_published[OF world_note_frames(2)])

interpretation worker: worker_contract "PostgresOutbox c cfg" pg_status pg_dead pg_ok
    "world_publisher b" "published b" "world_heap dlq moka rcfg" "world_recorder metrics_on"
  for c :: "('p, 'j) pg_client" and cfg :: "'p outbox_config" and b :: "'p broker" and dlq moka metrics_on :: bool
    and rcfg :: redis_token_config
proof (intro worker_contract.intro worker_contract_axioms.intro pg.storage_contract_axioms
    transport_world_publisher, unfold PostgresOutbox_simps, goal_cases)
  case 1
  show ?case
    by (rule publish_steps_keep_mono[OF world_batch_frame[OF world_publisher_db] same_db_tables(1)])
qed (rule world_log_frames; assumption)+

interpretation drainer: drain_contract "PostgresOutbox c cfg" pg_status pg_dead pg_ok
    "world_publisher b" "published b" "world_heap dlq moka rcfg" "world_recorder metrics_on"
    pg_backlog "pg_calm cfg"
  for c :: "('p, 'j) pg_client" and cfg :: "'p outbox_config" and b :: "'p broker" and dlq moka metrics_on :: bool
    and rcfg :: redis_token_config
proof (intro drain_contract.intro drain_contract_axioms.intro worker.worker_contract_axioms,
    unfold PostgresOutbox_simps, goal_cases)
  case 1 then show ?case by (rule pg_fetch_claims)
next
  case 2
  show ?case
    by (rule publish_steps_keep_mono[OF world_batch_frame[OF world_publisher_db] same_db_tables(2)])
next
  case 3 then show ?case by (intro pg_update_calm)
qed

text \<open>The Postgres statements leave the Redis keyspace alone.\<close>

lemma pg_quarantine_zset:
  "pg_quarantine_events c es s = (r, t) \<Longrightarrow> world_zset t = world_zset s"
  by (auto simp: pg_quarantine_events_def database_error_def run_stmt_def sql_quarantine_def Let_def
      advance_def world_zset_def zset_list_def fun_eq_iff
      split: option.splits pg_fault.splits prod.splits sum.splits if_splits)

interpretation reaper: reaper_contract "PostgresOutbox c cfg" pg_status pg_dead pg_ok
    "RedisProvider_heap world_text (world_provider moka rcfg)"
    "redis_counts world_text (world_provider moka rcfg) world_zset"
    "redis_hinv world_text (world_provider moka rcfg) world_zset"
  for c :: "('p, 'j) pg_client" and cfg :: "'p outbox_config" and moka :: bool
    and rcfg :: redis_token_config
proof (intro reaper_contract.intro reaper_contract_axioms.intro pg.storage_contract_axioms
    server.heap.dlq_heap_contract_axioms, unfold PostgresOutbox_simps RedisProvider_simps, goal_cases)
  case 1
  from same_db_tables(1)[OF redis_frame_db[OF drain_frame[OF 1]]] show ?case by simp
next
  case 2
  from pg_quarantine_zset[OF 2] show ?case by (auto simp: redis_hinv_def redis_counts_def fun_eq_iff)
qed

section \<open>The deployment of this world\<close>

definition world_deployment :: "('p, 'j) pg_client \<Rightarrow> 'p outbox_config \<Rightarrow> 'p broker \<Rightarrow> bool \<Rightarrow> bool \<Rightarrow>
    redis_token_config \<Rightarrow> bool \<Rightarrow> (('p, 'j) world, 'p) deployment" where
  "world_deployment c cfg b dlq moka rcfg metrics_on =
     \<lparr> sys_storage = PostgresOutbox c cfg, sys_writer = PostgresWriter c,
       sys_transport = world_publisher b, sys_heap = world_heap dlq moka rcfg,
       sys_metrics = world_recorder metrics_on, sys_config = cfg, sys_sleep = world_sleep \<rparr>"

lemma world_deployment_simps [simp]:
  "sys_storage (world_deployment c cfg b dlq moka rcfg metrics_on) = PostgresOutbox c cfg"
  "sys_writer (world_deployment c cfg b dlq moka rcfg metrics_on) = PostgresWriter c"
  "sys_transport (world_deployment c cfg b dlq moka rcfg metrics_on) = world_publisher b"
  "sys_heap (world_deployment c cfg b dlq moka rcfg metrics_on) = world_heap dlq moka rcfg"
  "sys_metrics (world_deployment c cfg b dlq moka rcfg metrics_on) = world_recorder metrics_on"
  "sys_config (world_deployment c cfg b dlq moka rcfg metrics_on) = cfg"
  "sys_sleep (world_deployment c cfg b dlq moka rcfg metrics_on) = world_sleep"
  by (simp_all add: world_deployment_def)

lemma pg_other_published:
  "pg_insert_event c e s = (r1, t) \<Longrightarrow> published b t = published b s"
  "pg_delete_garbage cfg s = (r2, t) \<Longrightarrow> published b t = published b s"
  "pg_quarantine_events c es s = (r3, t) \<Longrightarrow> published b t = published b s"
  by (auto simp: pg_insert_event_def pg_delete_garbage_def pg_quarantine_events_def
      database_error_def run_stmt_def sql_insert_def sql_delete_garbage_def sql_quarantine_def Let_def
      advance_def split: option.splits pg_fault.splits prod.splits sum.splits if_splits
      intro!: published_cong)

lemma world_drain_frame:
  assumes "world_heap dlq moka rcfg = Some hp" and "drain_exceeded hp thr s = (q, t)"
  shows "redis_frame s t"
  using assms by (auto simp: world_heap_def split: if_splits dest: drain_frame)

lemma world_sleep_views [simp]:
  "published b (world_sleep n s) = published b s" "pg_ok (world_sleep n s) = pg_ok s"
  "pg_status (world_sleep n s) = pg_status s" "pg_dead (world_sleep n s) = pg_dead s"
  by (rule published_cong; simp add: world_sleep_def)
    (simp_all add: world_sleep_def pg_ok_def pg_status_def pg_dead_def)

interpretation sys: system_contract "world_deployment c cfg b dlq moka rcfg metrics_on"
    pg_status pg_dead pg_ok "published b"
  for c :: "('p, 'j) pg_client" and cfg :: "'p outbox_config" and b :: "'p broker" and dlq moka metrics_on :: bool
    and rcfg :: redis_token_config
proof (intro system_contract.intro system_contract_axioms.intro,
    unfold world_deployment_simps PostgresOutbox_simps PostgresWriter_simps, goal_cases)
  case 1 show ?case by (rule worker.worker_contract_axioms)
next
  case 2 then show ?case by (rule pg_insert_law)
next
  case 8
  from same_db_tables(1)[OF redis_frame_db[OF world_drain_frame[OF 8]]] show ?case by simp
next
  case 6
  from redis_frame_published[OF world_drain_frame[OF 6]] show ?case .
qed (simp_all add: pg_other_published)

end
