(* ===== verification/Delivery.thy ===== *)
theory Delivery
  imports Manager
begin

text \<open>
  What a drain achieves when nothing goes wrong around it. \<open>due\<close> are the rows a claim may take now,
  \<open>bad\<close> the events the transport refuses, \<open>refused\<close> the ids of the rows that hold such an event, and
  \<open>healthy\<close> the states in which no call fails for another reason. The laws are what the storage, the
  transport and the heap do in such a state; the result is that a drain returns after publishing
  every due row once, except the refused ones.
\<close>

locale delivery_contract = drain_contract st status_of dead sinv tr accepted heap m backlog calm
  for st :: "('s, 'p) outbox_storage"
    and status_of :: "'s \<Rightarrow> event_id \<Rightarrow> event_status option"
    and dead :: "'s \<Rightarrow> event_id set"
    and sinv :: "'s \<Rightarrow> bool"
    and tr :: "('s, 'p) transport"
    and accepted :: "'s \<Rightarrow> event_id list"
    and heap :: "'s dlq_heap option"
    and m :: "'s metrics option"
    and backlog :: "'s \<Rightarrow> nat"
    and calm :: "'s \<Rightarrow> bool" +
  fixes healthy :: "'s \<Rightarrow> bool"
    and due :: "'s \<Rightarrow> event_id set"
    and refused :: "'s \<Rightarrow> event_id set"
    and bad :: "'p event \<Rightarrow> bool"
  assumes fetch_healthy:
    "sinv s \<Longrightarrow> calm s \<Longrightarrow> healthy s \<Longrightarrow>
       \<exists>evs t. fetch_next_to_process st l s = (Inr evs, t) \<and> healthy t \<and> refused t = refused s \<and>
         eid ` set evs \<subseteq> due s \<and> due t = due s - eid ` set evs \<and>
         (l \<noteq> 0 \<longrightarrow> due s \<noteq> {} \<longrightarrow> evs \<noteq> []) \<and> (\<forall>e \<in> set evs. bad e \<longleftrightarrow> eid e \<in> refused s)"
    and publish_healthy:
    "healthy s \<Longrightarrow> publish tr e s = (r, t) \<Longrightarrow>
       healthy t \<and> ((\<exists>err. r = Inl err) \<longleftrightarrow> bad e) \<and> (bad e \<longrightarrow> accepted t = accepted s)"
    and note_healthy:
    "healthy s \<Longrightarrow> note_success heap i s = (q, t) \<Longrightarrow> q = Inr () \<and> healthy t"
    "healthy s \<Longrightarrow> note_failure heap i s = (q, t) \<Longrightarrow> q = Inr () \<and> healthy t"
    "healthy s \<Longrightarrow> healthy (emit_success m ty s)"
    "healthy s \<Longrightarrow> healthy (emit_error m ty s)"
    and update_healthy:
    "sinv s \<Longrightarrow> healthy s \<Longrightarrow> update_status st ids Sent s = (q, t) \<Longrightarrow>
       q = Inr () \<and> healthy t \<and> refused t = refused s \<and> due t = due s - set ids"
    and steps_keep_due:
    "publish_steps_keep tr heap m (\<lambda>s t. due t = due s \<and> refused t = refused s)"
begin

lemma loop_due:
  assumes "publish_loop tr heap m evs acc s = (r, t)"
  shows "due t = due s \<and> refused t = refused s"
  by (rule publish_loop_keeps[OF steps_keep_due _ _ assms]) auto

lemma loop_healthy:
  assumes "healthy s"
  shows "\<exists>t. publish_loop tr heap m evs acc s = (Inr (acc @ map eid (filter (\<lambda>e. \<not> bad e) evs)), t) \<and>
    healthy t \<and> accepted t = accepted s @ map eid (filter (\<lambda>e. \<not> bad e) evs)"
  using assms
proof (induction evs arbitrary: acc s)
  case Nil
  then show ?case by simp
next
  case (Cons e evs)
  obtain r s1 where p: "publish tr e s = (r, s1)" by fastforce
  from publish_healthy[OF Cons.prems p] have h1: "healthy s1" by blast
  show ?case
  proof (cases "bad e")
    case True
    with publish_healthy[OF Cons.prems p] obtain err where r: "r = Inl err" and a1: "accepted s1 = accepted s"
      by blast
    obtain q s2 where n: "note_failure heap (eid e) s1 = (q, s2)" by fastforce
    from note_healthy(2)[OF h1 n] have q: "q = Inr ()" and h2: "healthy s2" by auto
    from Cons.IH[OF note_healthy(4)[OF h2]] p n r q True show ?thesis
      by (fastforce simp: note_log(2)[OF n] note_log(4) a1 Let_def)
  next
    case False
    with publish_healthy[OF Cons.prems p] obtain u where r: "r = Inr u" by (cases r) auto
    with publish_ok p have a1: "accepted s1 = accepted s @ [eid e]" by blast
    obtain q s2 where n: "note_success heap (eid e) s1 = (q, s2)" by fastforce
    from note_healthy(1)[OF h1 n] have q: "q = Inr ()" and h2: "healthy s2" by auto
    from Cons.IH[OF note_healthy(3)[OF h2], of "acc @ [eid e]"] p n r q False show ?thesis
      by (fastforce simp: note_log(1)[OF n] note_log(3) a1 Let_def)
  qed
qed

text \<open>A batch in such a state: what was fetched, what was published and what was marked.\<close>

lemma batch_shape:
  assumes inv: "sinv s" "calm s" "healthy s" and size: "batch_size cfg \<noteq> 0"
  obtains evs s1 s2 t where "fetch_next_to_process st (batch_size cfg) s = (Inr evs, s1)"
    and "healthy s1" and "sinv s1" and "distinct (map eid evs)"
    and "eid ` set evs \<subseteq> due s" and "due s \<noteq> {} \<longrightarrow> evs \<noteq> []"
    and "\<forall>e \<in> set evs. bad e \<longleftrightarrow> eid e \<in> refused s"
    and "publish_loop tr heap m evs [] s1 = (Inr (map eid (filter (\<lambda>e. \<not> bad e) evs)), s2)"
    and "healthy s2" and "accepted s2 = accepted s @ map eid (filter (\<lambda>e. \<not> bad e) evs)"
    and "status_of s2 = (\<lambda>i. if i \<in> eid ` set evs then Some Processing else status_of s i)"
    and "filter (\<lambda>e. \<not> bad e) evs = [] \<and> t = s2 \<or> filter (\<lambda>e. \<not> bad e) evs \<noteq> [] \<and>
      update_status st (map eid (filter (\<lambda>e. \<not> bad e) evs)) Sent s2 = (Inr (), t)"
    and "process_pending_events (OutboxProcessor_new st tr cfg) heap m s = (Inr (length evs), t)"
    and "healthy t" and "refused t = refused s" and "due t = due s - eid ` set evs"
proof -
  obtain evs s1 where f: "fetch_next_to_process st (batch_size cfg) s = (Inr evs, s1)"
    and h1: "healthy s1" "refused s1 = refused s" and d1: "eid ` set evs \<subseteq> due s" "due s1 = due s - eid ` set evs"
    and ne: "due s \<noteq> {} \<longrightarrow> evs \<noteq> []" and ref: "\<forall>e \<in> set evs. bad e \<longleftrightarrow> eid e \<in> refused s"
    using fetch_healthy[OF inv, of "batch_size cfg"] size by blast
  note law = fetch_ok[OF inv(1) f]
  let ?ok = "map eid (filter (\<lambda>e. \<not> bad e) evs)"
  obtain s2 where l: "publish_loop tr heap m evs [] s1 = (Inr ?ok, s2)" and h2: "healthy s2"
    and a2: "accepted s2 = accepted s1 @ ?ok"
    using loop_healthy[OF h1(1), of evs "[]"] by auto
  note fr = loop_frame[OF l] and du = loop_due[OF l]
  have acc: "accepted s2 = accepted s @ ?ok" using a2 storage_log(1)[OF f] by simp
  have st2: "status_of s2 = (\<lambda>i. if i \<in> eid ` set evs then Some Processing else status_of s i)"
    using fr law by simp
  have inv1: "sinv s1" "distinct (map eid evs)" using law by auto
  note facts = f h1(1) inv1 d1(1) ne ref l h2 acc st2
  show thesis
  proof (cases "?ok = []")
    case True
    have "process_pending_events (OutboxProcessor_new st tr cfg) heap m s = (Inr (length evs), s2)"
      using f l True by (cases "evs = []") (simp_all add: process_pending_events_def event_publish_def and_then_def)
    moreover have "due s2 = due s - eid ` set evs" using d1 du by simp
    ultimately show thesis using that[OF facts, of s2] h1 h2 du True by simp
  next
    case False
    obtain q t where u: "update_status st ?ok Sent s2 = (q, t)" by fastforce
    have inv2: "sinv s2" using fr law by simp
    from update_healthy[OF inv2 h2 u] have q: "q = Inr ()" and t: "healthy t" "refused t = refused s2"
      "due t = due s2 - set ?ok" by auto
    have "process_pending_events (OutboxProcessor_new st tr cfg) heap m s = (Inr (length evs), t)"
      using f l u q False by (cases "evs = []") (simp_all add: process_pending_events_def event_publish_def and_then_def)
    moreover have "due t = due s - eid ` set evs" using t(3) du d1 by auto
    ultimately show thesis using that[OF facts, of t] t h1 du u q False by simp
  qed
qed

text \<open>
  \<open>moved s t\<close>: the rows that are no longer due were claimed, and those not refused were published,
  once each, and marked; the dead letters are as they were.
\<close>

definition moved :: "'s \<Rightarrow> 's \<Rightarrow> bool" where
  "moved s t \<longleftrightarrow> due t \<subseteq> due s \<and> refused t = refused s \<and> dead t = dead s \<and>
     (\<exists>new. accepted t = accepted s @ new \<and> distinct new \<and> set new = (due s - due t) - refused s) \<and>
     status_of t = (\<lambda>i. if i \<notin> due s - due t then status_of s i
       else if i \<in> refused s then Some Processing else Some Sent)"

lemma batch_moved:
  assumes "sinv s" "calm s" "healthy s" and size: "batch_size cfg \<noteq> 0"
  shows "\<exists>n t. process_pending_events (OutboxProcessor_new st tr cfg) heap m s = (Inr n, t) \<and>
    healthy t \<and> (n = 0 \<longrightarrow> due t = {}) \<and> moved s t"
  using assms
proof (rule batch_shape)
  fix evs s1 s2 t
  let ?ok = "map eid (filter (\<lambda>e. \<not> bad e) evs)"
  assume f: "fetch_next_to_process st (batch_size cfg) s = (Inr evs, s1)"
    and evs: "distinct (map eid evs)" "eid ` set evs \<subseteq> due s" "due s \<noteq> {} \<longrightarrow> evs \<noteq> []"
      "\<forall>e \<in> set evs. bad e \<longleftrightarrow> eid e \<in> refused s"
    and loop: "publish_loop tr heap m evs [] s1 = (Inr ?ok, s2)" "sinv s1" "accepted s2 = accepted s @ ?ok"
    and st2: "status_of s2 = (\<lambda>i. if i \<in> eid ` set evs then Some Processing else status_of s i)"
    and marked: "filter (\<lambda>e. \<not> bad e) evs = [] \<and> t = s2 \<or>
      filter (\<lambda>e. \<not> bad e) evs \<noteq> [] \<and> update_status st ?ok Sent s2 = (Inr (), t)"
    and run: "process_pending_events (OutboxProcessor_new st tr cfg) heap m s = (Inr (length evs), t)"
    and t: "healthy t" "refused t = refused s" "due t = due s - eid ` set evs"
  have ids: "set ?ok = eid ` set evs - refused s" using evs(4) by auto
  have gone: "due s - due t = eid ` set evs" using evs(2) t(3) by auto
  have inv2: "sinv s2" "dead s2 = dead s"
    using loop_frame[OF loop(1)] loop(2) fetch_sent[OF assms(1) f] by simp_all
  have stt: "accepted t = accepted s2 \<and> dead t = dead s2 \<and> status_of t = (\<lambda>i. if i \<in> set ?ok then Some Sent else status_of s2 i)"
    using marked
  proof (elim disjE conjE)
    assume "update_status st ?ok Sent s2 = (Inr (), t)"
    from update_ok[OF inv2(1) this] storage_log(2)[OF this] st2 ids show ?thesis by (auto simp: fun_eq_iff)
  qed simp
  have "distinct ?ok" using evs(1) by (simp add: distinct_map_filter)
  then have "moved s t"
    unfolding moved_def gone using stt loop(3) ids st2 t(2,3) inv2(2)
    by (intro conjI exI[of _ ?ok]) (auto simp: fun_eq_iff)
  with run t evs(3) show ?thesis by (intro exI[of _ "length evs"] exI[of _ t]) auto
qed

lemma moved_trans:
  assumes "moved s t" and "moved t u"
  shows "moved s u"
proof -
  obtain a b where ab: "accepted t = accepted s @ a" "distinct a" "set a = (due s - due t) - refused s"
    "accepted u = accepted t @ b" "distinct b" "set b = (due t - due u) - refused s"
    using assms unfolding moved_def by metis
  have sub: "due u \<subseteq> due t" "due t \<subseteq> due s" using assms unfolding moved_def by auto
  have "\<exists>new. accepted u = accepted s @ new \<and> distinct new \<and> set new = (due s - due u) - refused s"
    using ab sub by (intro exI[of _ "a @ b"]) auto
  then show ?thesis using assms unfolding moved_def by (auto simp: fun_eq_iff)
qed

text \<open>
  A drain empties the backlog: it returns, and whatever its batches preserve (\<open>J\<close>) and achieve (\<open>R\<close>)
  it preserves and achieves.
\<close>

lemma drain_rel:
  assumes "sinv s" "calm s" "healthy s" "J s" and size: "batch_size cfg \<noteq> 0"
    and running: "\<And>s. healthy s \<Longrightarrow> \<not> borrow rx s"
    and step: "\<And>s n t. sinv s \<Longrightarrow> calm s \<Longrightarrow> healthy s \<Longrightarrow> J s \<Longrightarrow>
      process_pending_events (OutboxProcessor_new st tr cfg) heap m s = (Inr n, t) \<Longrightarrow> J t \<and> R s t"
    and trans: "\<And>s t u. R s t \<Longrightarrow> R t u \<Longrightarrow> R s u"
  shows "\<exists>t. drain (OutboxProcessor_new st tr cfg) heap m rx sleep s = Some (Back_to_waiting, t) \<and>
    sinv t \<and> calm t \<and> healthy t \<and> J t \<and> due t = {} \<and> moved s t \<and> R s t"
  using assms(1-4)
proof (induction "backlog s" arbitrary: s rule: less_induct)
  case less
  obtain n t where run: "process_pending_events (OutboxProcessor_new st tr cfg) heap m s = (Inr n, t)"
    and t: "healthy t" "n = 0 \<longrightarrow> due t = {}" "moved s t"
    using batch_moved[OF less.prems(1-3) size] by blast
  note bk = batch_backlog[OF less.prems(1,2) run] and J = step[OF less.prems run]
  show ?case
  proof (cases "n = 0")
    case True
    with t run bk J running[OF less.prems(3)] show ?thesis by (subst drain.simps) auto
  next
    case False
    with bk have "backlog t < backlog s" by simp
    from less.hyps[OF this] bk t(1) J obtain u where
      u: "drain (OutboxProcessor_new st tr cfg) heap m rx sleep t = Some (Back_to_waiting, u)"
        "sinv u" "calm u" "healthy u" "J u" "due u = {}" "moved t u" "R t u" by blast
    from moved_trans[OF t(3) u(7)] trans[OF J[THEN conjunct2] u(8)]
    show ?thesis using run running[OF less.prems(3)] False u by (subst drain.simps) simp
  qed
qed

lemma drain_delivers:
  assumes "sinv s" "calm s" "healthy s" "batch_size cfg \<noteq> 0" "\<And>s. healthy s \<Longrightarrow> \<not> borrow rx s"
  shows "\<exists>t. drain (OutboxProcessor_new st tr cfg) heap m rx sleep s = Some (Back_to_waiting, t) \<and>
    sinv t \<and> healthy t \<and> due t = {} \<and> moved s t"
  using drain_rel[OF assms(1-3) _ assms(4,5), of "\<lambda>_. True" "\<lambda>_ _. True"] by blast

end

end
