(* ===== verification/Settling.thy ===== *)
theory Settling
  imports Delivery
begin

text \<open>
  The retry cycle of the system: the worker drains again and again, a drain counts one more failure of
  every event it claims and the transport refuses, and the reaper moves what has failed often enough.
  \<open>later d\<close> is the passing of \<open>d\<close> seconds between two drains; after \<open>patience\<close> seconds the locks of a
  claim have expired. \<open>orderly\<close> says that no lock outlives it, and that the reaper can move what it takes (no row of
  the active table has a dead letter already).
\<close>

locale settling_contract =
  delivery_contract st status_of dead sinv tr accepted "Some hp" m backlog calm healthy due refused bad +
  reaper_contract st status_of dead sinv hp counts hinv
  for st :: "('s, 'p) outbox_storage"
    and status_of :: "'s \<Rightarrow> event_id \<Rightarrow> event_status option"
    and dead :: "'s \<Rightarrow> event_id set"
    and sinv :: "'s \<Rightarrow> bool"
    and tr :: "('s, 'p) transport"
    and accepted :: "'s \<Rightarrow> event_id list"
    and hp :: "'s dlq_heap"
    and m :: "'s metrics option"
    and backlog :: "'s \<Rightarrow> nat"
    and calm :: "'s \<Rightarrow> bool"
    and healthy :: "'s \<Rightarrow> bool"
    and due :: "'s \<Rightarrow> event_id set"
    and refused :: "'s \<Rightarrow> event_id set"
    and bad :: "'p event \<Rightarrow> bool"
    and counts :: "'s \<Rightarrow> event_id \<Rightarrow> nat"
    and hinv :: "'s \<Rightarrow> bool" +
  fixes orderly :: "'s \<Rightarrow> bool"
    and later :: "nat \<Rightarrow> 's \<Rightarrow> 's"
    and patience :: nat
  assumes counts_publish: "publish tr e s = (r, t) \<Longrightarrow> hinv t = hinv s \<and> counts t = counts s"
    and counts_fetch: "fetch_next_to_process st l s = (r1, t) \<Longrightarrow> hinv t = hinv s \<and> counts t = counts s"
    and counts_update: "update_status st ids x s = (r2, t) \<Longrightarrow> hinv t = hinv s \<and> counts t = counts s"
    and counts_emit:
    "hinv (emit_success m ty s) = hinv s \<and> counts (emit_success m ty s) = counts s"
    "hinv (emit_error m ty s) = hinv s \<and> counts (emit_error m ty s) = counts s"
    and orderly_steps: "publish_steps_keep tr (Some hp) m (\<lambda>s t. orderly t = orderly s)"
    and orderly_fetch:
    "sinv s \<Longrightarrow> calm s \<Longrightarrow> healthy s \<Longrightarrow> orderly s \<Longrightarrow> fetch_next_to_process st l s = (Inr evs, t) \<Longrightarrow>
       orderly t"
    and orderly_update: "healthy s \<Longrightarrow> orderly s \<Longrightarrow> update_status st ids Sent s = (r2, t) \<Longrightarrow> orderly t"
    and later_add: "later d (later w s) = later (w + d) s"
    and later_due:
    "healthy s \<Longrightarrow> orderly s \<Longrightarrow> status_of s i \<in> {Some Pending, Some Processing} \<Longrightarrow> patience \<le> d \<Longrightarrow>
       i \<in> due (later d s)"
    and later_keeps:
    "sinv s \<Longrightarrow> sinv (later d s)" "healthy s \<Longrightarrow> calm s \<Longrightarrow> calm (later d s) \<and> healthy (later d s)"
    "orderly s \<Longrightarrow> orderly (later d s)" "hinv s \<Longrightarrow> hinv (later d s)" "counts (later d s) = counts s"
    "status_of (later d s) = status_of s" "refused (later d s) = refused s" "accepted (later d s) = accepted s"
    "dead (later d s) = dead s"
    and ripe_steps: "publish_steps_keep tr (Some hp) m (\<lambda>s t. \<forall>w. due (later w t) = due (later w s))"
    and ripe_fetch:
    "sinv s \<Longrightarrow> calm s \<Longrightarrow> healthy s \<Longrightarrow> fetch_next_to_process st l s = (Inr evs, t) \<Longrightarrow> i \<notin> eid ` set evs \<Longrightarrow>
       i \<in> due (later w s) \<Longrightarrow> i \<in> due (later w t)"
    and ripe_update:
    "healthy s \<Longrightarrow> update_status st ids Sent s = (r2, t) \<Longrightarrow> i \<notin> set ids \<Longrightarrow> i \<in> due (later w s) \<Longrightarrow>
       i \<in> due (later w t)"
    and due_rows: "sinv s \<Longrightarrow> due s \<subseteq> {i. status_of s i \<in> {Some Pending, Some Processing}}"
    and drain_healthy:
    "healthy s \<Longrightarrow> hinv s \<Longrightarrow> drain_exceeded hp thr s = (q, t) \<Longrightarrow>
       (\<exists>es. q = Inr es) \<and> healthy t \<and> orderly t = orderly s"
    and quarantine_healthy:
    "sinv s \<Longrightarrow> healthy s \<Longrightarrow> orderly s \<Longrightarrow> distinct (map dlq_id es) \<Longrightarrow>
       quarantine_events st es s = (q2, t) \<Longrightarrow> q2 = Inr ()"
    and quarantine_log: "quarantine_events st es s = (q2, t) \<Longrightarrow> accepted t = accepted s"
    and drain_log: "drain_exceeded hp thr s = (q, t) \<Longrightarrow> accepted t = accepted s"
begin

text \<open>The counters after a loop: one more for a refused event, none for a published one.\<close>

lemma loop_counts:
  assumes "healthy s" and "hinv s" and "distinct (map eid evs)" and "\<forall>e \<in> set evs. counts s (eid e) < 2 ^ 53"
    and "publish_loop tr (Some hp) m evs acc s = (r, t)"
  shows "hinv t \<and> counts t = (\<lambda>i. if i \<in> eid ` {e \<in> set evs. bad e} then Suc (counts s i)
    else if i \<in> eid ` set evs then 0 else counts s i)"
  using assms
proof (induction evs arbitrary: acc s)
  case Nil
  then show ?case by simp
next
  case (Cons e evs)
  obtain x s1 where p: "publish tr e s = (x, s1)" by fastforce
  note h1 = publish_healthy[OF Cons.prems(1) p] and c1 = counts_publish[OF p]
  have new: "eid e \<notin> eid ` set evs" and dist: "distinct (map eid evs)" using Cons.prems(3) by auto
  have other: "counts s (eid e') < 2 ^ 53 \<and> eid e' \<noteq> eid e" if "e' \<in> set evs" for e'
    using Cons.prems(4) that new by (metis imageI list.set_intros(2))
  show ?case
  proof (cases "bad e")
    case True
    with h1 obtain err where x: "x = Inl err" by blast
    obtain y s2 where n: "note_failure (Some hp) (eid e) s1 = (y, s2)" by fastforce
    from note_healthy(2)[OF _ n] h1 have y: "y = Inr ()" and h2: "healthy s2" by auto
    have c2: "hinv s2 \<and> counts s2 = (counts s)(eid e := Suc (counts s (eid e)))"
      using failure_ok[of s1 "eid e" "()" s2] n y c1 Cons.prems(2,4) by simp
    let ?s3 = "emit_error m (display_event_type (event_type e)) s2"
    have "publish_loop tr (Some hp) m evs acc ?s3 = (r, t)"
      using Cons.prems(5) p n x y by (simp add: Let_def)
    moreover have "hinv ?s3" "\<forall>e \<in> set evs. counts s2 (eid e) < 2 ^ 53"
      using c2 other by (simp_all add: counts_emit)
    ultimately have "hinv t \<and> counts t = (\<lambda>i. if i \<in> eid ` {e \<in> set evs. bad e} then Suc (counts s2 i)
      else if i \<in> eid ` set evs then 0 else counts s2 i)"
      using Cons.IH[OF note_healthy(4)[OF h2] _ dist, unfolded counts_emit(2)[THEN conjunct2]] by blast
    with c2 new True show ?thesis by (auto simp: fun_eq_iff)
  next
    case False
    with h1 obtain u where x: "x = Inr u" by (cases x) auto
    obtain y s2 where n: "note_success (Some hp) (eid e) s1 = (y, s2)" by fastforce
    from note_healthy(1)[OF _ n] h1 have y: "y = Inr ()" and h2: "healthy s2" by auto
    have c2: "hinv s2 \<and> counts s2 = (counts s)(eid e := 0)"
      using success_ok[of s1 "eid e" "()" s2] n y c1 Cons.prems(2) by simp
    let ?s3 = "emit_success m (display_event_type (event_type e)) s2"
    have "publish_loop tr (Some hp) m evs (acc @ [eid e]) ?s3 = (r, t)"
      using Cons.prems(5) p n x y by (simp add: Let_def)
    moreover have "hinv ?s3" "\<forall>e \<in> set evs. counts s2 (eid e) < 2 ^ 53"
      using c2 other by (simp_all add: counts_emit)
    ultimately have "hinv t \<and> counts t = (\<lambda>i. if i \<in> eid ` {e \<in> set evs. bad e} then Suc (counts s2 i)
      else if i \<in> eid ` set evs then 0 else counts s2 i)"
      using Cons.IH[OF note_healthy(3)[OF h2] _ dist, unfolded counts_emit(1)[THEN conjunct2]] by blast
    with c2 new False show ?thesis by (auto simp: fun_eq_iff)
  qed
qed

text \<open>
  A batch tallies what it claims, and the rows it does not claim ripen as if it had not run.
\<close>

definition tallied :: "'s \<Rightarrow> 's \<Rightarrow> bool" where
  "tallied s t \<longleftrightarrow> due t \<subseteq> due s \<and> refused t = refused s \<and>
     counts t = (\<lambda>i. if i \<notin> due s - due t then counts s i
       else if i \<in> refused s then Suc (counts s i) else 0) \<and>
     (\<forall>i e. i \<notin> due s - due t \<longrightarrow> i \<in> due (later e s) \<longrightarrow> i \<in> due (later e t))"

definition countable_from :: "'s \<Rightarrow> bool" where
  "countable_from s \<longleftrightarrow> hinv s \<and> orderly s \<and> (\<forall>i \<in> due s. counts s i < 2 ^ 53)"

lemma loop_orderly:
  "publish_loop tr (Some hp) m evs acc s = (r, t) \<Longrightarrow> orderly t = orderly s"
  by (rule publish_loop_keeps[OF orderly_steps]) auto

lemma loop_ripe:
  "publish_loop tr (Some hp) m evs acc s = (r, t) \<Longrightarrow> \<forall>w. due (later w t) = due (later w s)"
  by (rule publish_loop_keeps[OF ripe_steps]) simp_all

lemma batch_tallied:
  assumes inv: "sinv s" "calm s" "healthy s" and J: "countable_from s" and size: "batch_size cfg \<noteq> 0"
    and run: "process_pending_events (OutboxProcessor_new st tr cfg) (Some hp) m s = (Inr n, t)"
  shows "countable_from t \<and> tallied s t"
  using inv size
proof (rule batch_shape)
  fix evs s1 s2 t'
  let ?ok = "map eid (filter (\<lambda>e. \<not> bad e) evs)"
  assume f: "fetch_next_to_process st (batch_size cfg) s = (Inr evs, s1)" and s1: "healthy s1"
    and evs: "distinct (map eid evs)" "eid ` set evs \<subseteq> due s" "\<forall>e \<in> set evs. bad e \<longleftrightarrow> eid e \<in> refused s"
    and loop: "publish_loop tr (Some hp) m evs [] s1 = (Inr ?ok, s2)" "healthy s2"
    and marked: "filter (\<lambda>e. \<not> bad e) evs = [] \<and> t' = s2 \<or>
      filter (\<lambda>e. \<not> bad e) evs \<noteq> [] \<and> update_status st ?ok Sent s2 = (Inr (), t')"
    and run': "process_pending_events (OutboxProcessor_new st tr cfg) (Some hp) m s = (Inr (length evs), t')"
    and t: "refused t' = refused s" "due t' = due s - eid ` set evs"
  have t': "t' = t" using run run' by simp
  have gone: "due s - due t = eid ` set evs" using evs(2) t(2) t' by auto
  have bads: "eid ` {e \<in> set evs. bad e} = eid ` set evs \<inter> refused s" using evs(3) by auto
  have J1: "hinv s1" "counts s1 = counts s" "orderly s1"
    using J counts_fetch[OF f] orderly_fetch[OF inv _ f] by (simp_all add: countable_from_def)
  have "\<forall>e \<in> set evs. counts s1 (eid e) < 2 ^ 53" using J evs(2) J1(2) by (auto simp: countable_from_def)
  from loop_counts[OF s1 J1(1) evs(1) this loop(1)]
  have J2: "hinv s2" "counts s2 = (\<lambda>i. if i \<in> eid ` set evs \<inter> refused s then Suc (counts s i)
      else if i \<in> eid ` set evs then 0 else counts s i)" "orderly s2"
    using loop_orderly[OF loop(1)] J1(3) unfolding bads J1(2) by simp_all
  have J3: "hinv t \<and> counts t = counts s2 \<and> orderly t"
    using marked unfolding t'
  proof (elim disjE conjE)
    assume "update_status st ?ok Sent s2 = (Inr (), t)"
    from counts_update[OF this] orderly_update[OF loop(2) J2(3) this] J2(1) show ?thesis by simp
  qed (use J2 in simp)
  have ripe: "i \<in> due (later e t)" if "i \<notin> eid ` set evs" "i \<in> due (later e s)" for i e
  proof -
    have "i \<in> due (later e s2)" using ripe_fetch[OF inv f that] loop_ripe[OF loop(1)] by simp
    moreover have "i \<notin> set ?ok" using that(1) by auto
    ultimately show ?thesis using marked ripe_update[OF loop(2)] unfolding t' by blast
  qed
  have "tallied s t"
    unfolding tallied_def gone using J2(2) J3 evs(2) t ripe unfolding t' by (auto simp: fun_eq_iff)
  moreover have "countable_from t"
    using J J3 t(2) evs(2) unfolding t' by (auto simp: countable_from_def J2(2))
  ultimately show ?thesis by blast
qed

lemma tallied_trans: "tallied s t \<Longrightarrow> tallied t u \<Longrightarrow> tallied s u"
  unfolding tallied_def by (auto simp: fun_eq_iff)

lemma drain_settles:
  assumes "sinv s" "calm s" "healthy s" "countable_from s" "batch_size cfg \<noteq> 0"
    and "\<And>s. healthy s \<Longrightarrow> \<not> borrow rx s"
  shows "\<exists>t. drain (OutboxProcessor_new st tr cfg) (Some hp) m rx sleep s = Some (Back_to_waiting, t) \<and>
    sinv t \<and> calm t \<and> healthy t \<and> countable_from t \<and> due t = {} \<and> moved s t \<and> tallied s t"
  using drain_rel[where J = countable_from and R = tallied, OF assms(1-5) assms(6)]
    batch_tallied[OF _ _ _ _ assms(5)] tallied_trans by blast

section \<open>Polls of the manager\<close>

text \<open>
  \<open>unsent\<close> are the rows that wait or were claimed. After \<open>n\<close> polls that took \<open>d\<close> seconds (\<open>worked n d\<close>)
  the other rows are as they were; an unsent row was published and marked, or failed some more, or is
  \<open>attempted\<close> by the next poll that finds its lock expired.
\<close>

definition unsent :: "'s \<Rightarrow> event_id set" where
  "unsent s = {i. status_of s i \<in> {Some Pending, Some Processing}}"

definition fit :: "'s \<Rightarrow> bool" where
  "fit s \<longleftrightarrow> sinv s \<and> calm s \<and> healthy s \<and> hinv s \<and> orderly s"

definition attempted :: "'s \<Rightarrow> 's \<Rightarrow> event_id \<Rightarrow> bool" where
  "attempted s t i \<longleftrightarrow> (if i \<in> refused s then counts s i < counts t i else status_of t i = Some Sent)"

definition worked :: "nat \<Rightarrow> nat \<Rightarrow> 's \<Rightarrow> 's \<Rightarrow> bool" where
  "worked n d s t \<longleftrightarrow> refused t = refused s \<and> dead t = dead s \<and>
     (\<forall>i. i \<notin> unsent s \<longrightarrow> status_of t i = status_of s i \<and> counts t i = counts s i) \<and>
     (\<forall>i \<in> unsent s \<inter> refused s. i \<in> unsent t \<and> counts s i \<le> counts t i \<and> counts t i \<le> counts s i + n) \<and>
     (\<forall>i \<in> unsent s - refused s. i \<in> unsent t \<and> counts t i = counts s i \<or>
        status_of t i = Some Sent \<and> counts t i = 0) \<and>
     (\<exists>new. accepted t = accepted s @ new \<and> distinct new \<and> set new = unsent s - unsent t) \<and>
     (\<forall>i \<in> unsent s. \<not> attempted s t i \<longrightarrow> (\<forall>w. i \<in> due (later (d + w) s) \<longrightarrow> i \<in> due (later w t)))"

lemma workedD:
  assumes "worked n d s t"
  shows "refused t = refused s" "dead t = dead s"
    and "i \<notin> unsent s \<Longrightarrow> status_of t i = status_of s i \<and> counts t i = counts s i"
    and "i \<in> unsent s \<Longrightarrow> i \<in> refused s \<Longrightarrow>
      i \<in> unsent t \<and> counts s i \<le> counts t i \<and> counts t i \<le> counts s i + n"
    and "i \<in> unsent s \<Longrightarrow> i \<notin> refused s \<Longrightarrow>
      i \<in> unsent t \<and> counts t i = counts s i \<or> status_of t i = Some Sent \<and> counts t i = 0"
    and "\<exists>new. accepted t = accepted s @ new \<and> distinct new \<and> set new = unsent s - unsent t"
    and "i \<in> unsent s \<Longrightarrow> \<not> attempted s t i \<Longrightarrow> i \<in> due (later (d + w) s) \<Longrightarrow> i \<in> due (later w t)"
  using assms unfolding worked_def by blast+

lemma worked_counts: "worked n d s t \<Longrightarrow> counts t i \<le> counts s i + n"
  using workedD(3-5)[of n d s t i] by fastforce

lemma worked_shrinks:
  assumes "worked n d s t"
  shows "unsent t \<subseteq> unsent s"
proof (rule subsetI, rule ccontr)
  fix i assume "i \<in> unsent t" "i \<notin> unsent s"
  with workedD(3)[OF assms this(2)] show False by (simp add: unsent_def)
qed

lemma sent_not_unsent: "status_of t i = Some Sent \<Longrightarrow> i \<notin> unsent t"
  by (simp add: unsent_def)

lemma due_unsent: "fit s \<Longrightarrow> due (later d s) \<subseteq> unsent s"
  using due_rows[of "later d s"] later_keeps(1)[of s d] unfolding later_keeps(6) by (auto simp: fit_def unsent_def)

lemma poll_turn:
  assumes fit: "fit s" and "\<forall>i \<in> unsent s. counts s i < 2 ^ 53" and size: "batch_size cfg \<noteq> 0"
    and rx: "\<And>s. healthy s \<Longrightarrow> \<not> borrow rx s"
  shows "\<exists>t. manager_turn (OutboxManager_new st tr cfg (Some hp) rx) m sleep Poll_tick (later d s) =
    Some (Continue, t) \<and> fit t \<and> worked 1 d s t \<and> (\<forall>i \<in> due (later d s). attempted s t i)"
proof -
  let ?D = "due (later d s)"
  note keeps = later_keeps fit[unfolded fit_def]
  note sub = due_unsent[OF fit, of d]
  have "countable_from (later d s)"
    using assms(2) keeps sub unfolding countable_from_def by auto
  with drain_settles[of "later d s" cfg rx sleep] size rx keeps obtain t where
    t: "drain (OutboxProcessor_new st tr cfg) (Some hp) m rx sleep (later d s) = Some (Back_to_waiting, t)"
      "sinv t" "calm t" "healthy t" "countable_from t" "due t = {}" "moved (later d s) t" "tallied (later d s) t"
    by blast
  have rf: "refused t = refused s" "dead t = dead s"
    and status: "status_of t = (\<lambda>i. if i \<notin> ?D then status_of s i else if i \<in> refused s then Some Processing else Some Sent)"
    and count: "counts t = (\<lambda>i. if i \<notin> ?D then counts s i else if i \<in> refused s then Suc (counts s i) else 0)"
    and ripe: "\<And>i w. i \<notin> ?D \<Longrightarrow> i \<in> due (later w (later d s)) \<Longrightarrow> i \<in> due (later w t)"
    and log: "\<exists>new. accepted t = accepted s @ new \<and> distinct new \<and> set new = ?D - refused s"
    using t(6-8) unfolding moved_def tallied_def later_keeps(5-9) by auto
  have all: "attempted s t i" if "i \<in> ?D" for i using that status count by (simp add: attempted_def)
  have "?D - refused s = unsent s - unsent t" using sub unfolding unsent_def status by auto
  with log have log: "\<exists>new. accepted t = accepted s @ new \<and> distinct new \<and> set new = unsent s - unsent t" by simp
  have "worked 1 d s t"
    unfolding worked_def
  proof (intro conjI allI ballI impI rf log)
    fix i w assume "\<not> attempted s t i" and "i \<in> due (later (d + w) s)"
    with all ripe show "i \<in> due (later w t)" unfolding later_add by blast
  qed (use sub status count in \<open>auto simp: unsent_def\<close>)
  with t all show ?thesis
    by (simp add: drain_then_def OutboxManager_new_def fit_def countable_from_def)
qed

lemma not_attempted:
  assumes "worked n d s t" and "worked n' d' t u" and "i \<in> unsent s" and "\<not> attempted s u i"
  shows "\<not> attempted s t i \<and> i \<in> unsent t \<and> \<not> attempted t u i"
proof (cases "i \<in> refused s")
  case True
  then have "i \<in> unsent t" "counts s i \<le> counts t i" "i \<in> refused t" using assms(1,3) by (auto simp: worked_def)
  moreover from this have "counts t i \<le> counts u i" using assms(2) by (auto simp: worked_def)
  ultimately show ?thesis using True assms(4) by (auto simp: attempted_def)
next
  case False
  then have rt: "i \<notin> refused t" using assms(1) by (simp add: worked_def)
  have "i \<in> unsent t"
  proof (rule ccontr)
    assume gone: "i \<notin> unsent t"
    with False assms(1,3) have "status_of t i = Some Sent" by (auto simp: worked_def)
    with gone assms(2) have "status_of u i = Some Sent" by (auto simp: worked_def)
    with False assms(4) show False by (simp add: attempted_def)
  qed
  with False rt assms(4) show ?thesis by (auto simp: attempted_def unsent_def)
qed

lemma worked_trans:
  assumes 1: "worked n d s t" and 2: "worked n' d' t u"
  shows "worked (n + n') (d + d') s u"
proof -
  note sub = worked_shrinks[OF 1] worked_shrinks[OF 2]
  obtain a b where "accepted t = accepted s @ a" "distinct a" "set a = unsent s - unsent t"
    "accepted u = accepted t @ b" "distinct b" "set b = unsent t - unsent u"
    using workedD(6)[OF 1] workedD(6)[OF 2] by blast
  with sub have log: "\<exists>new. accepted u = accepted s @ new \<and> distinct new \<and> set new = unsent s - unsent u"
    by (intro exI[of _ "a @ b"]) auto
  show ?thesis
    unfolding worked_def
  proof (intro conjI allI ballI impI log)
    show "refused u = refused s" "dead u = dead s" using workedD(1,2)[OF 1] workedD(1,2)[OF 2] by simp_all
  next
    fix i assume i: "i \<notin> unsent s"
    with sub have "i \<notin> unsent t" by blast
    from workedD(3)[OF 1 i] workedD(3)[OF 2 this] show "status_of u i = status_of s i" "counts u i = counts s i"
      by simp_all
  next
    fix i assume i: "i \<in> unsent s \<inter> refused s"
    with workedD(4)[OF 1, of i] workedD(1)[OF 1]
    have t: "i \<in> unsent t" "counts s i \<le> counts t i" "counts t i \<le> counts s i + n" "i \<in> refused t" by simp_all
    from workedD(4)[OF 2 t(1,4)] t(2,3)
    show "i \<in> unsent u" "counts s i \<le> counts u i" "counts u i \<le> counts s i + (n + n')" by simp_all
  next
    fix i assume i: "i \<in> unsent s - refused s"
    then have rt: "i \<notin> refused t" using workedD(1)[OF 1] by simp
    show "i \<in> unsent u \<and> counts u i = counts s i \<or> status_of u i = Some Sent \<and> counts u i = 0"
    proof (cases "i \<in> unsent t")
      case True
      with i workedD(5)[OF 1, of i] sent_not_unsent[of t i] have "counts t i = counts s i" by auto
      with workedD(5)[OF 2 True rt] show ?thesis by simp
    next
      case False
      with i workedD(5)[OF 1, of i] have "status_of t i = Some Sent" "counts t i = 0" by auto
      with workedD(3)[OF 2 False] show ?thesis by simp
    qed
  next
    fix i w assume i: "i \<in> unsent s" "\<not> attempted s u i" and ripe: "i \<in> due (later (d + d' + w) s)"
    note no = not_attempted[OF 1 2 i]
    have "i \<in> due (later (d' + w) t)"
      using workedD(7)[OF 1 i(1), of "d' + w"] no ripe by (simp add: add.assoc)
    with workedD(7)[OF 2, of i w] no show "i \<in> due (later w u)" by blast
  qed
qed

lemma worked_room:
  assumes "worked n d s t" and "\<forall>i. counts s i + (n + k) < 2 ^ 53"
  shows "\<forall>i. counts t i + k < 2 ^ 53"
proof
  fix i
  from worked_counts[OF assms(1), of i] assms(2)[THEN spec, of i] show "counts t i + k < 2 ^ 53" by linarith
qed

lemma room_le: "\<forall>i. counts s i + k < 2 ^ 53 \<Longrightarrow> j \<le> k \<Longrightarrow> counts s i + j < 2 ^ 53"
  by (rule le_less_trans[of _ "counts s i + k"]) simp_all

definition polls :: "nat list \<Rightarrow> (manager_arm, 's) schedule" where
  "polls ds = map (\<lambda>d. (later d, Poll_tick)) ds"

lemma polls_append: "polls (ds @ es) = polls ds @ polls es"
  by (simp add: polls_def)

lemma polls_work:
  assumes fit: "fit s" and room: "\<forall>i. counts s i + length ds < 2 ^ 53" and size: "batch_size cfg \<noteq> 0"
    and rx: "\<And>s. healthy s \<Longrightarrow> \<not> borrow rx s"
  shows "\<exists>t. select_loop (manager_turn (OutboxManager_new st tr cfg (Some hp) rx) m sleep) (polls ds) s =
    Some (None, t) \<and> fit t \<and> worked (length ds) (sum_list ds) s t"
  using fit room
proof (induction ds arbitrary: s)
  case Nil
  have "worked 0 0 s s" by (auto simp: worked_def unsent_def)
  with Nil show ?case by (simp add: polls_def)
next
  case (Cons d ds)
  have "\<forall>i \<in> unsent s. counts s i < 2 ^ 53" using room_le[OF Cons.prems(2), of 0] by simp
  from poll_turn[OF Cons.prems(1) this size, of rx sleep d] rx obtain t where
    t: "manager_turn (OutboxManager_new st tr cfg (Some hp) rx) m sleep Poll_tick (later d s) = Some (Continue, t)"
      "fit t" "worked 1 d s t" by blast
  from worked_room[OF t(3), of "length ds"] Cons.prems(2) Cons.IH[OF t(2)] obtain u where
    "select_loop (manager_turn (OutboxManager_new st tr cfg (Some hp) rx) m sleep) (polls ds) t = Some (None, u)"
    "fit u" "worked (length ds) (sum_list ds) t u" by auto
  with t(1) worked_trans[OF t(3)] show ?case by (auto simp: polls_def)
qed

text \<open>Polls that span the \<open>patience\<close> attempt every row that was unsent when they began.\<close>

lemma block_attempts:
  assumes fit: "fit s" and room: "\<forall>i. counts s i + length ds < 2 ^ 53" and size: "batch_size cfg \<noteq> 0"
    and rx: "\<And>s. healthy s \<Longrightarrow> \<not> borrow rx s" and long: "ds \<noteq> []" "patience \<le> sum_list ds"
  shows "\<exists>t. select_loop (manager_turn (OutboxManager_new st tr cfg (Some hp) rx) m sleep) (polls ds) s =
    Some (None, t) \<and> fit t \<and> worked (length ds) (sum_list ds) s t \<and> (\<forall>i \<in> unsent s. attempted s t i)"
proof -
  obtain es d where ds: "ds = es @ [d]" using long(1) by (metis rev_exhaust)
  have "\<forall>i. counts s i + length es < 2 ^ 53" using room_le[OF room] by (simp add: ds)
  from polls_work[OF fit this size, of rx sleep] rx obtain t where
    t: "select_loop (manager_turn (OutboxManager_new st tr cfg (Some hp) rx) m sleep) (polls es) s = Some (None, t)"
      "fit t" "worked (length es) (sum_list es) s t" by blast
  have "\<forall>i \<in> unsent t. counts t i < 2 ^ 53" using room_le[OF worked_room[OF t(3), of 1], of 0] room by (simp add: ds)
  from poll_turn[OF t(2) this size, of rx sleep d] rx obtain u where
    u: "manager_turn (OutboxManager_new st tr cfg (Some hp) rx) m sleep Poll_tick (later d t) = Some (Continue, u)"
      "fit u" "worked 1 d t u" "\<forall>i \<in> due (later d t). attempted t u i" by blast
  have "attempted s u i" if i: "i \<in> unsent s" for i
  proof (rule ccontr)
    assume "\<not> attempted s u i"
    note no = not_attempted[OF t(3) u(3) i this]
    have "i \<in> due (later (sum_list es + d) s)"
      using later_due[of s i "sum_list es + d"] fit i long(2) by (auto simp: fit_def unsent_def ds)
    with t(3) i no have "i \<in> due (later d t)" unfolding worked_def by blast
    with u(4) no show False by blast
  qed
  moreover have "select_loop (manager_turn (OutboxManager_new st tr cfg (Some hp) rx) m sleep) (polls ds) s = Some (None, u)"
    using t(1) u(1) by (simp add: ds polls_append select_loop_append) (simp add: polls_def)
  ultimately show ?thesis using u(2) worked_trans[OF t(3) u(3)] by (auto simp: ds)
qed

lemma blocks_work:
  assumes "fit s" and "\<forall>i. counts s i + length (concat blocks) < 2 ^ 53" and size: "batch_size cfg \<noteq> 0"
    and rx: "\<And>s. healthy s \<Longrightarrow> \<not> borrow rx s" and "\<forall>ds \<in> set blocks. ds \<noteq> [] \<and> patience \<le> sum_list ds"
  shows "\<exists>t. select_loop (manager_turn (OutboxManager_new st tr cfg (Some hp) rx) m sleep) (polls (concat blocks)) s =
    Some (None, t) \<and> fit t \<and> worked (length (concat blocks)) (sum_list (concat blocks)) s t \<and>
    (\<forall>i \<in> unsent s \<inter> refused s. counts s i + length blocks \<le> counts t i) \<and>
    (blocks \<noteq> [] \<longrightarrow> (\<forall>i \<in> unsent s - refused s. status_of t i = Some Sent))"
  using assms(1,2,5)
proof (induction blocks arbitrary: s)
  case Nil
  have "worked 0 0 s s" by (auto simp: worked_def unsent_def)
  with Nil show ?case by (simp add: polls_def)
next
  case (Cons ds blocks)
  have "\<forall>i. counts s i + length ds < 2 ^ 53"
    using room_le[OF Cons.prems(2), of "length ds"] by simp
  from block_attempts[OF Cons.prems(1) this size, of rx sleep] rx Cons.prems(3) obtain t where
    t: "select_loop (manager_turn (OutboxManager_new st tr cfg (Some hp) rx) m sleep) (polls ds) s = Some (None, t)"
      "fit t" "worked (length ds) (sum_list ds) s t" "\<forall>i \<in> unsent s. attempted s t i" by auto
  from worked_room[OF t(3), of "length (concat blocks)"] Cons.prems(2,3) Cons.IH[OF t(2)] obtain u where
    u: "select_loop (manager_turn (OutboxManager_new st tr cfg (Some hp) rx) m sleep) (polls (concat blocks)) t = Some (None, u)"
      "fit u" "worked (length (concat blocks)) (sum_list (concat blocks)) t u"
      "\<forall>i \<in> unsent t \<inter> refused t. counts t i + length blocks \<le> counts u i" by auto
  have "counts s i + length (ds # blocks) \<le> counts u i" if "i \<in> unsent s \<inter> refused s" for i
  proof -
    have "counts s i < counts t i" using t(4) that by (auto simp: attempted_def)
    moreover have "i \<in> unsent t \<inter> refused t" using t(3) that by (auto simp: worked_def)
    ultimately show ?thesis using u(4)[THEN bspec, of i] by simp
  qed
  moreover have "status_of u i = Some Sent" if "i \<in> unsent s - refused s" for i
  proof -
    have "status_of t i = Some Sent" using t(4) that by (auto simp: attempted_def)
    with u(3) sent_not_unsent[OF this] show ?thesis by (simp add: worked_def)
  qed
  ultimately show ?case
    using t(1) u(1,2) worked_trans[OF t(3) u(3)] by (auto simp: polls_append select_loop_append)
qed

section \<open>The tick that follows\<close>

lemma tick_moves:
  assumes fit: "fit s" and run: "dlq_tick (DlqProcessor_new hp st cfg rx) s = t"
  shows "status_of t = (\<lambda>i. if i \<in> over (dlq_threshold cfg) s then None else status_of s i) \<and>
    dead t = dead s \<union> {i \<in> over (dlq_threshold cfg) s. status_of s i \<noteq> None} \<and> accepted t = accepted s"
proof -
  obtain q u where d: "drain_exceeded hp (dlq_threshold cfg) s = (q, u)" by fastforce
  from drain_healthy[OF _ _ d] fit obtain es where q: "q = Inr es" and h: "healthy u" "orderly u"
    by (auto simp: fit_def)
  note fr = drain_frame[OF d] and law = drain_ok[OF _ d[unfolded q]]
  have ov: "dlq_id ` set es = over (dlq_threshold cfg) s" using law fit by (simp add: over_def fit_def)
  have su: "sinv u" using fr fit by (simp add: fit_def)
  show ?thesis
  proof (cases "es = []")
    case True
    with run d q ov fr drain_log[OF d] show ?thesis by (auto simp: dlq_tick_def DlqProcessor_new_def)
  next
    case False
    obtain r v where qu: "quarantine_events st es u = (r, v)" by fastforce
    with run d q False have tv: "t = v" by (simp add: dlq_tick_def DlqProcessor_new_def)
    from quarantine_healthy[OF su h _ qu] law fit have "r = Inr ()" by (simp add: fit_def)
    from quarantine_ok[OF su qu[unfolded this]] quarantine_log[OF qu] drain_log[OF d] show ?thesis
      unfolding tv ov fr[THEN conjunct2, THEN conjunct1] fr[THEN conjunct2, THEN conjunct2] by simp
  qed
qed

lemma system_settles:
  assumes "fit s" and "\<forall>i. counts s i + length (concat blocks) < 2 ^ 53" and "batch_size cfg \<noteq> 0"
    and "\<And>s. healthy s \<Longrightarrow> \<not> borrow rx s" and long: "\<forall>ds \<in> set blocks. ds \<noteq> [] \<and> patience \<le> sum_list ds"
    and thr: "blocks \<noteq> []" "unat (dlq_threshold cfg) \<le> length blocks"
  shows "\<exists>t. select_loop (manager_turn (OutboxManager_new st tr cfg (Some hp) rx) m sleep)
      (polls (concat blocks)) s = Some (None, t) \<and>
    (\<forall>u. dlq_tick (DlqProcessor_new hp st cfg rx') t = u \<longrightarrow>
      (\<exists>new. accepted u = accepted s @ new \<and> distinct new \<and> set new = unsent s - refused s) \<and>
      (\<forall>i \<in> unsent s. if i \<in> refused s then status_of u i = None \<and> i \<in> dead u
        else status_of u i = Some Sent) \<and> dead s \<subseteq> dead u)"
proof -
  obtain t where t: "select_loop (manager_turn (OutboxManager_new st tr cfg (Some hp) rx) m sleep)
      (polls (concat blocks)) s = Some (None, t)" "fit t"
    "worked (length (concat blocks)) (sum_list (concat blocks)) s t"
    "\<forall>i \<in> unsent s \<inter> refused s. counts s i + length blocks \<le> counts t i"
    "\<forall>i \<in> unsent s - refused s. status_of t i = Some Sent"
    using blocks_work[OF assms(1-3), of rx sleep] assms(4) long thr(1) by blast
  have gone: "unsent s - unsent t = unsent s - refused s"
    using t(3,5) sent_not_unsent[of t] by (auto simp: worked_def)
  have over: "i \<in> over (dlq_threshold cfg) t \<longleftrightarrow> i \<in> refused s" if i: "i \<in> unsent s" for i
  proof (cases "i \<in> refused s")
    case True
    with t(4) i have "counts s i + length blocks \<le> counts t i" by blast
    then have "0 < counts t i" "unat (dlq_threshold cfg) \<le> counts t i" using thr by (cases blocks; simp)+
    with True show ?thesis by (simp add: over_def)
  next
    case False
    with t(3,5) i sent_not_unsent[of t i] have "counts t i = 0" by (auto simp: worked_def)
    with False show ?thesis by (simp add: over_def)
  qed
  show ?thesis
  proof (intro exI[of _ t] conjI allI impI t(1))
    fix u assume run: "dlq_tick (DlqProcessor_new hp st cfg rx') t = u"
    note mv = tick_moves[OF t(2) run]
    show "dead s \<subseteq> dead u" using t(3) mv by (auto simp: worked_def)
    show "\<exists>new. accepted u = accepted s @ new \<and> distinct new \<and> set new = unsent s - refused s"
      using t(3) mv unfolding gone[symmetric] by (simp add: worked_def)
    show "\<forall>i \<in> unsent s. if i \<in> refused s then status_of u i = None \<and> i \<in> dead u else status_of u i = Some Sent"
      using mv t(3,5) over by (auto simp: worked_def unsent_def)
  qed
qed

end

end
