(* ===== verification/Postgres_Delivery.thy ===== *)
theory Postgres_Delivery
  imports Postgres
begin

text \<open>
  The statements of the adapter when nothing interferes: an empty script (no fault, no foreign row
  lock, no delay). \<open>pg_due\<close> are the ids a claim may take now, \<open>pg_refused\<close> the ids of the rows whose
  decoded event satisfies a predicate of its type and payload. These are the storage laws a drain
  that delivers its backlog rests on.
\<close>

definition pg_due :: "('j, 'x) pg_state_scheme \<Rightarrow> event_id set" where
  "pg_due s = eid ` {r \<in> set (outbox_events s). claimable (pg_now s) r}"

definition decodable :: "('p, 'j) pg_client \<Rightarrow> ('j, 'x) pg_state_scheme \<Rightarrow> bool" where
  "decodable c s \<longleftrightarrow> (\<forall>r \<in> set (outbox_events s). \<exists>p. from_value c (as_value (payload r)) = Inr p)"

definition pg_refused :: "('p, 'j) pg_client \<Rightarrow> ('p event \<Rightarrow> bool) \<Rightarrow> ('j, 'x) pg_state_scheme \<Rightarrow>
    event_id set" where
  "pg_refused c bad s =
     eid ` {r \<in> set (outbox_events s). \<exists>e. decode_row (from_value c) r = Inr e \<and> bad e}"

text \<open>A predicate that reads only what the outbox never changes of an event.\<close>

definition content_only :: "('p event \<Rightarrow> bool) \<Rightarrow> bool" where
  "content_only bad \<longleftrightarrow> (\<forall>e x u. bad (e\<lparr> status := x, locked_until := u \<rparr>) = bad e)"

lemma decode_touched:
  "decode_row fv (r\<lparr> status := x, locked_until := u \<rparr>) =
     map_sum id (\<lambda>e. e\<lparr> status := x, locked_until := u \<rparr>) (decode_row fv r)"
  by (simp add: decode_row_def with_payload_def split: sum.splits)

lemma decode_claimed:
  assumes "content_only bad"
  shows "(\<exists>e. decode_row fv (claim_row u r) = Inr e \<and> bad e) \<longleftrightarrow> (\<exists>e. decode_row fv r = Inr e \<and> bad e)"
  using assms
  by (cases "decode_row fv r") (auto simp: claim_row_def decode_touched content_only_def)

lemma decode_sent:
  assumes "content_only bad"
  shows "(\<exists>e. decode_row fv (r\<lparr> status := x \<rparr>) = Inr e \<and> bad e) \<longleftrightarrow> (\<exists>e. decode_row fv r = Inr e \<and> bad e)"
proof -
  have "r\<lparr> status := x \<rparr> = r\<lparr> status := x, locked_until := locked_until r \<rparr>" by simp
  then show ?thesis
    using assms decode_touched[where fv = fv and r = r and x = x and u = "locked_until r"]
    by (cases "decode_row fv r") (auto simp: content_only_def)
qed

lemma pg_refused_map:
  assumes "\<And>r. eid (f r) = eid r"
    and "\<And>r. (\<exists>e. decode_row (from_value c) (f r) = Inr e \<and> bad e) \<longleftrightarrow>
      (\<exists>e. decode_row (from_value c) r = Inr e \<and> bad e)"
  shows "pg_refused c bad (s\<lparr> outbox_events := map f (outbox_events s) \<rparr>) = pg_refused c bad s"
proof -
  let ?P = "\<lambda>r. \<exists>e. decode_row (from_value c) r = Inr e \<and> bad e"
  have "{r \<in> f ` set (outbox_events s). ?P r} = f ` {r \<in> set (outbox_events s). ?P r}"
    using assms(2) by auto
  then show ?thesis by (simp add: pg_refused_def image_image assms(1))
qed

lemma pg_due_map:
  fixes s :: "('j, 'x) pg_state_scheme" and f :: "'j event \<Rightarrow> 'j event"
  assumes "\<And>r. eid (f r) = eid r"
    and "\<And>r. claimable (pg_now s) (f r) \<longleftrightarrow> claimable (pg_now s) r \<and> eid r \<notin> K"
  shows "pg_due (s\<lparr> outbox_events := map f (outbox_events s) \<rparr>) = pg_due s - K"
proof -
  have "{r \<in> f ` set (outbox_events s). claimable (pg_now s) r} =
      f ` {r \<in> set (outbox_events s). claimable (pg_now s) r \<and> eid r \<notin> K}"
    using assms(2) by auto
  then have "pg_due (s\<lparr> outbox_events := map f (outbox_events s) \<rparr>) =
      eid ` {r \<in> set (outbox_events s). claimable (pg_now s) r \<and> eid r \<notin> K}"
    by (simp add: pg_due_def image_image assms(1))
  then show ?thesis by (auto simp: pg_due_def)
qed

lemma decodable_map:
  assumes "\<And>r. payload (f r) = payload r"
  shows "decodable c (s\<lparr> outbox_events := map f (outbox_events s) \<rparr>) = decodable c s"
  using assms by (auto simp: decodable_def)

lemma eligible_quiet:
  assumes "pg_script s = []"
  shows "eligible (next_env s) (advance s) = claimable (pg_now s)"
  using assms by (simp add: fun_eq_iff eligible_def advance_quiet next_env_def quiet_env_def)

lemma pg_calm_quiet: "pg_script s = [] \<Longrightarrow> pg_calm cfg s \<longleftrightarrow> 0 \<le> sint (lock_timeout_mins cfg)"
  by (auto simp: pg_calm_def horizon_def minute_def)

lemma pg_fetch_quiet:
  fixes s :: "('j, 'x) pg_state_scheme"
  assumes ok: "pg_ok s" and quiet: "pg_script s = []" and dec: "decodable c s"
    and lock: "0 \<le> sint (lock_timeout_mins cfg)" and content: "content_only bad"
  shows "\<exists>evs t. pg_fetch_next_to_process c cfg l s = (Inr evs, t) \<and>
    t = s\<lparr> outbox_events := outbox_events t \<rparr> \<and> decodable c t \<and> pg_refused c bad t = pg_refused c bad s \<and>
    eid ` set evs \<subseteq> pg_due s \<and> pg_due t = pg_due s - eid ` set evs \<and>
    (l \<noteq> 0 \<longrightarrow> pg_due s \<noteq> {} \<longrightarrow> evs \<noteq> []) \<and> (\<forall>e \<in> set evs. bad e \<longleftrightarrow> eid e \<in> pg_refused c bad s)"
proof -
  obtain evs t where run: "pg_fetch_next_to_process c cfg l s = (Inr evs, t)"
    and frame: "t = s\<lparr> outbox_events := outbox_events t \<rparr>"
    by (rule quiet_fetch[OF ok quiet dec[unfolded decodable_def]])
  let ?until = "pg_now s + minute * sint (lock_timeout_mins cfg)"
  let ?f = "\<lambda>r. if eid r \<in> eid ` set evs then claim_row ?until r else r"
  note ex = fetch_exact[OF ok run, unfolded advance_quiet[OF quiet] eligible_quiet[OF quiet, unfolded advance_quiet[OF quiet]]]
  have t: "t = s\<lparr> outbox_events := map ?f (outbox_events s) \<rparr>" using frame ex(3) by simp
  have dist: "distinct (map eid (outbox_events s))" using ok by (simp add: pg_ok_def)
  have member: "\<exists>r \<in> set (outbox_events s). eid r = eid e \<and> claimable (pg_now s) r \<and>
      decode_row (from_value c) (claim_row ?until r) = Inr e" if e: "e \<in> set evs" for e
  proof -
    obtain r where r: "r \<in> set (outbox_events s)" "eid r \<in> eid ` set evs"
      "decode_row (from_value c) (claim_row ?until r) = Inr e" using e ex(1) by blast
    then have "eid r = eid e" by (auto simp: decode_row_def with_payload_def split: sum.splits)
    with r ex(4) show ?thesis by blast
  qed
  have "eid ` set evs \<subseteq> pg_due s" unfolding pg_due_def using member by force
  moreover have "pg_due t = pg_due s - eid ` set evs"
  proof -
    have "\<not> claimable (pg_now s) (claim_row ?until r)" for r :: "'j event"
      using lock by (simp add: claimable_def minute_def)
    then show ?thesis unfolding t by (intro pg_due_map) simp_all
  qed
  moreover have "evs \<noteq> []" if limit: "l \<noteq> 0" and some: "pg_due s \<noteq> {}"
  proof -
    obtain r where "r \<in> set (filter (claimable (pg_now s)) (outbox_events s))"
      using some by (auto simp: pg_due_def)
    then have "0 < length (filter (claimable (pg_now s)) (outbox_events s))" by (rule length_pos_if_in_set)
    moreover have "0 < unat l" using limit by (simp add: unat_gt_0)
    ultimately have "0 < length evs" by (simp only: ex(2) min_less_iff_conj)
    then show ?thesis by simp
  qed
  moreover have "bad e \<longleftrightarrow> eid e \<in> pg_refused c bad s" if "e \<in> set evs" for e
  proof -
    obtain r where r: "r \<in> set (outbox_events s)" "eid r = eid e"
      "decode_row (from_value c) (claim_row ?until r) = Inr e" using member[OF \<open>e \<in> set evs\<close>] by blast
    have "eid e \<in> pg_refused c bad s \<longleftrightarrow> (\<exists>e'. decode_row (from_value c) r = Inr e' \<and> bad e')"
    proof
      assume "eid e \<in> pg_refused c bad s"
      then obtain x where x: "x \<in> set (outbox_events s)" "eid r = eid x"
        "\<exists>e'. decode_row (from_value c) x = Inr e' \<and> bad e'" using r(2) by (auto simp: pg_refused_def)
      with key_unique[OF dist r(1) x(1,2)] show "\<exists>e'. decode_row (from_value c) r = Inr e' \<and> bad e'" by simp
    next
      assume "\<exists>e'. decode_row (from_value c) r = Inr e' \<and> bad e'"
      with r(1) have "eid r \<in> pg_refused c bad s" unfolding pg_refused_def by blast
      with r(2) show "eid e \<in> pg_refused c bad s" by simp
    qed
    also have "\<dots> \<longleftrightarrow> bad e" using decode_claimed[OF content, of "from_value c" ?until r] r(3) by auto
    finally show ?thesis by simp
  qed
  moreover have "pg_refused c bad t = pg_refused c bad s"
    unfolding t by (rule pg_refused_map) (simp_all add: decode_claimed[OF content])
  moreover have "decodable c t"
    unfolding t using dec by (subst decodable_map) (simp_all add: claim_row_def)
  ultimately show ?thesis using run frame by blast
qed

lemma pg_update_quiet:
  assumes quiet: "pg_script s = []" and content: "content_only bad"
    and run: "pg_update_status ids Sent s = (q, t)"
  shows "q = Inr () \<and> t = s\<lparr> outbox_events := outbox_events t \<rparr> \<and> decodable c t = decodable c s \<and>
    pg_refused c bad t = pg_refused c bad s \<and> pg_due t = pg_due s - set ids"
proof -
  let ?f = "\<lambda>r. if eid r \<in> set ids then r\<lparr> status := Sent \<rparr> else r"
  have t: "q = Inr ()" "t = s\<lparr> outbox_events := map ?f (outbox_events s) \<rparr>"
    using run quiet by (auto simp: pg_update_status_def database_error_def run_stmt_def next_env_def
        quiet_env_def sql_update_status_def advance_quiet)
  have "decodable c t = decodable c s" unfolding t(2) by (rule decodable_map) simp
  moreover have "pg_refused c bad t = pg_refused c bad s"
    unfolding t(2) by (rule pg_refused_map) (simp_all add: decode_sent[OF content])
  moreover have "pg_due t = pg_due s - set ids"
    unfolding t(2) by (rule pg_due_map) (simp_all add: claimable_def)
  ultimately show ?thesis using t by simp
qed

end
