(* ===== verification/Healthy_World.thy ===== *)
theory Healthy_World
  imports World Settling Postgres_Delivery
begin

text \<open>
  The reference environment on a good day: what its calls do in a world where nothing fails, and the
  contract of a drain that delivers its backlog, interpreted on the PostgreSQL adapter, every transport
  of the repository and, with the \<open>dlq\<close> feature, the Redis heap.
\<close>

text \<open>Up, every acknowledgement arriving.\<close>

fun broker_healthy :: "'p broker \<Rightarrow> ('p, 'j) world \<Rightarrow> bool" where
  "broker_healthy (Kafka_topic enc key tpc) s \<longleftrightarrow> kafka_up s \<and> kafka_acks s = []"
| "broker_healthy _ s \<longleftrightarrow> receiver_open s"

text \<open>An event the transport itself refuses: one its payload encoder rejects, or the cursed one.\<close>

fun refuses :: "'p broker \<Rightarrow> 'p event \<Rightarrow> bool" where
  "refuses Tokio_channel e \<longleftrightarrow> False"
| "refuses Flaky_channel e \<longleftrightarrow> event_type_as_str (event_type e) = ''CursedPing''"
| "refuses (Kafka_topic enc key tpc) e \<longleftrightarrow> (\<exists>x. enc (payload e) = Inl x)"

text \<open>
  A world in which no call of a batch fails but for the event itself: an empty script, rows that
  decode, a healthy broker, a Redis server that answers and whose heap key is free for a sorted set,
  and no stop request.
\<close>

definition heap_key :: "redis_token_config \<Rightarrow> string" where
  "heap_key rcfg = key_prefix rcfg @ '':'' @ DLQ_KEY_SUFFIX"

definition world_healthy :: "('p, 'j) pg_client \<Rightarrow> 'p broker \<Rightarrow> bool \<Rightarrow> redis_token_config \<Rightarrow>
    ('p, 'j) world \<Rightarrow> bool" where
  "world_healthy c b dlq rcfg s \<longleftrightarrow> pg_script s = [] \<and> decodable c s \<and> broker_healthy b s \<and>
     \<not> stop_flag s \<and> (dlq \<longrightarrow> redis_script s = [] \<and> world_str s (heap_key rcfg) = None)"

lemma world_healthy_views [simp]:
  "world_healthy c b dlq rcfg (s\<lparr> channel := x \<rparr>) = world_healthy c b dlq rcfg s"
  "world_healthy c b dlq rcfg (s\<lparr> metrics_log := y \<rparr>) = world_healthy c b dlq rcfg s"
  "world_healthy c b dlq rcfg (s\<lparr> kafka_log := z \<rparr>) = world_healthy c b dlq rcfg s"
  "kafka_acks s = [] \<Longrightarrow>
     world_healthy c b dlq rcfg (s\<lparr> kafka_log := z, kafka_acks := [] \<rparr>) = world_healthy c b dlq rcfg s"
  "world_healthy c b dlq rcfg (put_zset k w s) = world_healthy c b dlq rcfg s"
  by (cases b; simp add: world_healthy_def decodable_def world_str_def put_zset_def)+

lemma world_healthy_events:
  "decodable c (s\<lparr> outbox_events := x \<rparr>) = decodable c s \<Longrightarrow>
     world_healthy c b dlq rcfg (s\<lparr> outbox_events := x \<rparr>) = world_healthy c b dlq rcfg s"
  by (cases b) (simp_all add: world_healthy_def world_str_def)

lemma same_db_due:
  "same_db s t \<Longrightarrow> pg_due t = pg_due s \<and> pg_refused c bad t = pg_refused c bad s"
  by (simp add: same_db_def pg_due_def pg_refused_def)

lemma redis_cmd_quiet: "redis_script s = [] \<Longrightarrow> redis_cmd body s = body s"
  by (cases s) (simp add: redis_cmd_def)

lemma notes_quiet:
  assumes "world_healthy c b dlq rcfg s"
  shows "note_success (world_heap dlq moka rcfg) i s = (q, t) \<Longrightarrow> q = Inr () \<and> world_healthy c b dlq rcfg t"
    and "note_failure (world_heap dlq moka rcfg) i s = (q, t) \<Longrightarrow> q = Inr () \<and> world_healthy c b dlq rcfg t"
proof -
  have "dlq \<Longrightarrow> redis_script s = [] \<and> world_str s (heap_key rcfg) = None"
    using assms by (simp add: world_healthy_def)
  then show "note_success (world_heap dlq moka rcfg) i s = (q, t) \<Longrightarrow> q = Inr () \<and> world_healthy c b dlq rcfg t"
    and "note_failure (world_heap dlq moka rcfg) i s = (q, t) \<Longrightarrow> q = Inr () \<and> world_healthy c b dlq rcfg t"
    using assms
    by (auto simp: world_heap_def redis_record_success_def redis_record_failure_def and_then_def
        infrastructure_error_def world_zrem_def world_zincrby_def redis_cmd_quiet on_zset_def Let_def
        dlq_key_def heap_key_def split: if_splits)
qed

lemma publish_healthy_world:
  assumes "world_healthy c b dlq rcfg s" and "publish (world_publisher b) e s = (r, t)"
  shows "world_healthy c b dlq rcfg t \<and> ((\<exists>err. r = Inl err) \<longleftrightarrow> refuses b e) \<and>
    (refuses b e \<longrightarrow> published b t = published b s)"
proof (cases b)
  case (Kafka_topic enc key tpc)
  moreover have "kafka_up s" "kafka_acks s = []"
    using assms(1) Kafka_topic by (simp_all add: world_healthy_def)
  ultimately show ?thesis
    using assms by (auto simp: kafka_publish_def world_kafka_def world_payload_def world_producer_def Let_def
      split: sum.splits)
next
  case Tokio_channel
  moreover have "receiver_open s" using assms(1) Tokio_channel by (simp add: world_healthy_def)
  ultimately show ?thesis using assms by (auto simp: tokio_publish_def world_tx_def)
next
  case Flaky_channel
  moreover have "receiver_open s" using assms(1) Flaky_channel by (simp add: world_healthy_def)
  ultimately show ?thesis using assms by (auto simp: flaky_publish_def world_tx_def split: if_splits)
qed

lemma refuses_content [simp]: "content_only (refuses b)"
  by (cases b) (simp_all add: content_only_def)

interpretation deliver: delivery_contract "PostgresOutbox c cfg" pg_status pg_dead pg_ok
    "world_publisher b" "published b" "world_heap dlq moka rcfg" "world_recorder metrics_on"
    pg_backlog "pg_calm cfg" "world_healthy c b dlq rcfg" pg_due "pg_refused c (refuses b)" "refuses b"
  for c :: "('p, 'j) pg_client" and cfg :: "'p outbox_config" and b :: "'p broker" and dlq moka metrics_on :: bool
    and rcfg :: redis_token_config
proof (intro delivery_contract.intro delivery_contract_axioms.intro drainer.drain_contract_axioms,
    unfold PostgresOutbox_simps, goal_cases)
  case (1 s l)
  then have h: "pg_script s = []" "decodable c s" "0 \<le> sint (lock_timeout_mins cfg)"
    by (simp_all add: world_healthy_def pg_calm_quiet)
  obtain evs t where t: "pg_fetch_next_to_process c cfg l s = (Inr evs, t)"
    "t = s\<lparr> outbox_events := outbox_events t \<rparr>" "decodable c t"
    "pg_refused c (refuses b) t = pg_refused c (refuses b) s" "eid ` set evs \<subseteq> pg_due s"
    "pg_due t = pg_due s - eid ` set evs" "l \<noteq> 0 \<longrightarrow> pg_due s \<noteq> {} \<longrightarrow> evs \<noteq> []"
    "\<forall>e \<in> set evs. refuses b e \<longleftrightarrow> eid e \<in> pg_refused c (refuses b) s"
    using pg_fetch_quiet[OF 1(1) h refuses_content] by metis
  have "world_healthy c b dlq rcfg t"
    using world_healthy_events[where c = c and s = s and x = "outbox_events t" and b = b and dlq = dlq and rcfg = rcfg] 1(3) t(2,3) h(2) by simp
  with t show ?case by blast
next
  case (2 s e r t)
  then show ?case by (rule publish_healthy_world)
next
  case (3 s i q t)
  then show ?case by (rule notes_quiet(1))
next
  case (4 s i q t)
  then show ?case by (rule notes_quiet(2))
next
  case (5 s ty)
  then show ?case by (simp add: emit_success_def world_recorder_def world_metrics_def split: option.splits)
next
  case (6 s ty)
  then show ?case by (simp add: emit_error_def world_recorder_def world_metrics_def split: option.splits)
next
  case (7 s ids q t)
  then have "pg_script s = []" by (simp add: world_healthy_def)
  note t = pg_update_quiet[OF this refuses_content 7(3), of c b]
  then have "world_healthy c b dlq rcfg t"
    using world_healthy_events[where c = c and s = s and x = "outbox_events t" and b = b and dlq = dlq and rcfg = rcfg] 7(2) by metis
  with t show ?case by blast
next
  case 8
  show ?case
    by (rule publish_steps_keep_mono[OF world_batch_frame[OF world_publisher_db] same_db_due])
qed

section \<open>The retry cycle\<close>

text \<open>
  Between two polls the clock moves past the lock of the last claim. \<open>orderly\<close>: no lock reaches further
  than a claim made now would, and no stored row has a dead letter already.
\<close>

definition lock_secs :: "'p outbox_config \<Rightarrow> nat" where
  "lock_secs cfg = Suc (60 * nat (sint (lock_timeout_mins cfg)))"

definition orderly :: "'p outbox_config \<Rightarrow> ('p, 'j) world \<Rightarrow> bool" where
  "orderly cfg s \<longleftrightarrow>
     (\<forall>r \<in> set (outbox_events s). locked_until r \<le> pg_now s + minute * sint (lock_timeout_mins cfg)) \<and>
     eid ` set (outbox_events s) \<inter> dl_id ` set (outbox_dead_letters s) = {}"

lemma orderly_same_db: "same_db s t \<Longrightarrow> orderly cfg t = orderly cfg s"
  by (simp add: same_db_def orderly_def)

lemma fetch_rows:
  assumes "pg_ok s" and "pg_script s = []" and "pg_fetch_next_to_process c cfg l s = (Inr evs, t)"
  shows "outbox_events t = map (\<lambda>r. if eid r \<in> eid ` set evs
      then claim_row (pg_now s + minute * sint (lock_timeout_mins cfg)) r else r) (outbox_events s)"
    and "pg_now t = pg_now s" "outbox_dead_letters t = outbox_dead_letters s"
  using fetch_exact(3)[OF assms(1,3)] assms(2,3)
  by (auto simp: advance_quiet pg_fetch_next_to_process_def database_error_def and_then_def run_stmt_def
      sql_claim_def Let_def next_env_def quiet_env_def advance_def split: sum.splits)

lemma update_rows:
  assumes "pg_script s = []" and "pg_update_status ids Sent s = (q, t)"
  shows "outbox_events t = map (\<lambda>r. if eid r \<in> set ids then r\<lparr> status := Sent \<rparr> else r) (outbox_events s)"
    and "pg_now t = pg_now s" "outbox_dead_letters t = outbox_dead_letters s"
  using assms by (auto simp: pg_update_status_def database_error_def run_stmt_def next_env_def quiet_env_def
      sql_update_status_def advance_quiet)

lemma orderly_rows:
  assumes "orderly cfg s" and "pg_now t = pg_now s" and "outbox_dead_letters t = outbox_dead_letters s"
    and "\<And>r. r \<in> set (outbox_events t) \<Longrightarrow> (\<exists>r' \<in> set (outbox_events s). eid r' = eid r) \<and>
      locked_until r \<le> pg_now s + minute * sint (lock_timeout_mins cfg)"
  shows "orderly cfg t"
  using assms(1,4) unfolding orderly_def assms(2,3) by force

lemma orderly_fetch_world:
  assumes "pg_ok s" and "pg_script s = []" and "orderly cfg s"
    and "pg_fetch_next_to_process c cfg l s = (Inr evs, t)"
  shows "orderly cfg t"
  using assms(3) fetch_rows[OF assms(1,2,4)]
  by (intro orderly_rows[OF assms(3)]) (auto simp: orderly_def claim_row_def)

lemma orderly_update_world:
  assumes "pg_script s = []" and "orderly cfg s" and "pg_update_status ids Sent s = (q, t)"
  shows "orderly cfg t"
  using assms(2) update_rows[OF assms(1,3)]
  by (intro orderly_rows[OF assms(2)]) (auto simp: orderly_def)

text \<open>A row that a call does not touch becomes due when it would have without the call.\<close>

lemma ripens:
  assumes "i \<in> pg_due (world_sleep n s)" and rows: "outbox_events t = map f (outbox_events s)"
    and now: "pg_now t = pg_now s" and f: "\<And>r. eid r = i \<Longrightarrow> f r = r"
  shows "i \<in> pg_due (world_sleep n t)"
proof -
  obtain r where r: "r \<in> set (outbox_events s)" "eid r = i" "claimable (pg_now s + 1000000 * int n) r"
    using assms(1) by (auto simp: pg_due_def world_sleep_def)
  then have "r \<in> set (outbox_events t)" using f[of r] unfolding rows by (metis image_eqI list.set_map)
  with r show ?thesis by (auto simp: pg_due_def world_sleep_def now)
qed

lemma same_db_ripens: "same_db s t \<Longrightarrow> \<forall>n. pg_due (world_sleep n t) = pg_due (world_sleep n s)"
  by (simp add: same_db_def pg_due_def world_sleep_def)

lemma pg_due_rows: "pg_ok s \<Longrightarrow> pg_due s \<subseteq> {i. pg_status s i \<in> {Some Pending, Some Processing}}"
  unfolding pg_due_def pg_status_def pg_ok_def by (auto simp: row_status_Some claimable_def)

lemma sleep_makes_due:
  assumes "orderly cfg s" and "pg_status s i \<in> {Some Pending, Some Processing}" and "lock_secs cfg \<le> d"
  shows "i \<in> pg_due (world_sleep d s)"
proof -
  obtain r where r: "r \<in> set (outbox_events s)" "eid r = i" "status r \<in> {Pending, Processing}"
    using assms(2) by (auto simp: pg_status_def row_status_def dest!: map_of_SomeD)
  have "locked_until r \<le> pg_now s + minute * sint (lock_timeout_mins cfg)"
    using assms(1) r(1) by (simp add: orderly_def)
  also have "\<dots> < pg_now s + 1000000 * int (lock_secs cfg)"
    by (simp add: minute_def lock_secs_def)
  also have "\<dots> \<le> pg_now s + 1000000 * int d" using assms(3) by simp
  finally have "claimable (pg_now s + 1000000 * int d) r"
    using r(3) by (auto simp: claimable_def)
  then show ?thesis using r by (auto simp: pg_due_def world_sleep_def)
qed

lemma pg_zset:
  "pg_fetch_next_to_process c cfg l s = (r1, t) \<Longrightarrow> world_zset t = world_zset s"
  "pg_update_status ids x s = (r2, t) \<Longrightarrow> world_zset t = world_zset s"
  by (auto simp: pg_fetch_next_to_process_def pg_update_status_def database_error_def and_then_def
      run_stmt_def sql_claim_def sql_update_status_def Let_def advance_def world_zset_def zset_list_def fun_eq_iff
      split: option.splits pg_fault.splits prod.splits sum.splits)

lemma publish_zset:
  "publish (world_publisher b) e s = (r, t) \<Longrightarrow> world_zset t = world_zset s"
  by (cases b) (auto simp: tokio_publish_def flaky_publish_def world_tx_def kafka_publish_def world_kafka_def
      world_producer_def Let_def world_zset_def zset_list_def fun_eq_iff
      split: sum.splits if_splits list.splits bool.splits)

lemma emit_zset:
  "world_zset (emit_success (world_recorder metrics_on) ty s) = world_zset s"
  "world_zset (emit_error (world_recorder metrics_on) ty s) = world_zset s"
  by (simp_all add: emit_success_def emit_error_def world_recorder_def world_metrics_def world_zset_def
      zset_list_def fun_eq_iff)

lemma script_quiet:
  assumes "world_healthy c b True rcfg s"
  obtains items t where "drain_script world_conn (heap_key rcfg) lo s = (Inr items, t)"
    and "world_healthy c b True rcfg t"
proof -
  have q: "redis_script s = []" "world_str s (heap_key rcfg) = None"
    using assms by (simp_all add: world_healthy_def)
  let ?t = "put_zset (heap_key rcfg) (filter (\<lambda>(m, c). c < lo) (AList.clearjunk (zset_list s (heap_key rcfg)))) s"
  have "\<exists>items. drain_script world_conn (heap_key rcfg) lo s = (Inr items, s) \<or>
      drain_script world_conn (heap_key rcfg) lo s = (Inr items, ?t)"
    using q by (auto simp: drain_script_def and_then_def world_zrangebyscore_def world_zremrangebyscore_def
        redis_cmd_quiet on_zset_def)
  then show thesis using that assms by fastforce
qed

lemma dlq_key_world [simp]: "dlq_key (world_provider moka rcfg) = heap_key rcfg"
  by (simp add: dlq_key_def heap_key_def)

lemma drain_quiet:
  assumes "world_healthy c b True rcfg s" and "redis_hinv world_text (world_provider moka rcfg) world_zset s"
    and "redis_drain_exceeded world_text (world_provider moka rcfg) thr s = (q, t)"
  shows "(\<exists>es. q = Inr es) \<and> world_healthy c b True rcfg t"
proof -
  obtain items u where d: "drain_script world_conn (heap_key rcfg) (unat thr) s = (Inr items, u)"
    and h: "world_healthy c b True rcfg u" by (rule script_quiet[OF assms(1)])
  obtain es where "parse_pairs world_text items = Inr es"
    using server.script_parses[OF assms(2)] d by fastforce
  with d assms(3) have "q = Inr es" and "t = u"
    by (simp_all add: redis_drain_exceeded_def and_then_def infrastructure_error_def)
  with h show ?thesis by simp
qed

lemma quarantine_quiet:
  fixes s :: "('p, 'j) world"
  assumes ok: "pg_ok s" and quiet: "pg_script s = []" and ord: "orderly cfg s"
    and dist: "distinct (map dlq_id es)" and run: "pg_quarantine_events c es s = (q, t)"
  shows "q = Inr ()"
proof -
  let ?f = "zip (map dlq_id es) (zip (map (\<lambda>e. i32_saturating (failure_count e)) es) (map last_error es))"
  let ?del = "filter (\<lambda>r. eid r \<in> dlq_id ` set es) (outbox_events s)"
  let ?joined = "concat (map (\<lambda>d. map (\<lambda>(i, n, le). dead_of (pg_now s) n le d)
    (filter (\<lambda>(i, _). eid d = i) ?f)) ?del)"
  have "distinct (map fst ?f)" using dist by simp
  note one = filter_key_at_most_one[OF this]
  have "distinct (map eid ?del)" using ok by (simp add: pg_ok_def distinct_map_filter)
  then have "distinct (map dl_id ?joined)"
    by (rule distinct_concat_at_most_one[rotated 2]) (use one in \<open>simp, fastforce\<close>)
  moreover have "dl_id ` set ?joined \<subseteq> eid ` set ?del" by (auto simp del: set_filter)
  moreover have "dl_id ` set (outbox_dead_letters s) \<inter> eid ` set ?del = {}"
    using ord by (auto simp: orderly_def)
  ultimately have "distinct (map dl_id (outbox_dead_letters s @ ?joined))"
    using ord ok unfolding orderly_def pg_ok_def map_append distinct_append list.set_map by blast
  then show ?thesis
    using run quiet by (auto simp: pg_quarantine_events_def database_error_def run_stmt_def next_env_def
        quiet_env_def sql_quarantine_def Let_def advance_quiet split: if_splits)
qed

lemma sleep_healthy:
  "world_healthy c b dlq rcfg s \<Longrightarrow> world_healthy c b dlq rcfg (world_sleep n s)"
  by (cases b) (simp_all add: world_healthy_def world_sleep_def decodable_def world_str_def)

lemma sleep_views:
  "world_zset (world_sleep n s) = world_zset s"
  "pg_refused c bad (world_sleep n s) = pg_refused c bad s"
  "orderly cfg s \<Longrightarrow> orderly cfg (world_sleep n s)"
  by (auto simp: world_sleep_def world_zset_def zset_list_def fun_eq_iff pg_refused_def orderly_def)

lemma redis_views_cong:
  "world_zset t = world_zset s \<Longrightarrow>
     redis_hinv world_text rp world_zset t = redis_hinv world_text rp world_zset s \<and>
     redis_counts world_text rp world_zset t = redis_counts world_text rp world_zset s"
  using redis_counts_cong[of world_zset t s] by blast

interpretation settle: settling_contract "PostgresOutbox c cfg" pg_status pg_dead pg_ok
    "world_publisher b" "published b" "RedisProvider_heap world_text (world_provider moka rcfg)"
    "world_recorder metrics_on" pg_backlog "pg_calm cfg" "world_healthy c b True rcfg" pg_due
    "pg_refused c (refuses b)" "refuses b"
    "redis_counts world_text (world_provider moka rcfg) world_zset"
    "redis_hinv world_text (world_provider moka rcfg) world_zset" "orderly cfg"
    world_sleep "lock_secs cfg"
  for c :: "('p, 'j) pg_client" and cfg :: "'p outbox_config" and b :: "'p broker" and moka metrics_on :: bool
    and rcfg :: redis_token_config
proof (intro settling_contract.intro settling_contract_axioms.intro reaper.reaper_contract_axioms
    deliver.delivery_contract_axioms[where dlq = True, unfolded world_heap_def if_True],
    unfold PostgresOutbox_simps RedisProvider_simps, goal_cases)
  case 1 then show ?case by (intro redis_views_cong publish_zset)
next
  case 2 then show ?case by (intro redis_views_cong pg_zset(1))
next
  case 3 then show ?case by (intro redis_views_cong pg_zset(2))
next
  case 4 show ?case by (intro redis_views_cong emit_zset)
next
  case 5 show ?case by (intro redis_views_cong emit_zset)
next
  case 6
  show ?case
    by (rule publish_steps_keep_mono[OF world_batch_frame[where dlq = True, unfolded world_heap_def if_True,
          OF world_publisher_db] orderly_same_db])
next
  case (7 s l evs t)
  then show ?case by (intro orderly_fetch_world[of s cfg c l evs t]) (simp_all add: world_healthy_def)
next
  case (8 s ids q t)
  then show ?case by (intro orderly_update_world[of s cfg ids q t]) (simp_all add: world_healthy_def)
next
  case (9 d w s) show ?case by (simp add: world_sleep_def algebra_simps)
next
  case (10 s i d)
  then show ?case by (intro sleep_makes_due)
next
  case (12 s d)
  then have "pg_script s = []" by (simp add: world_healthy_def)
  with 12 have "pg_calm cfg (world_sleep d s)"
    by (simp add: pg_calm_quiet world_sleep_def)
  with sleep_healthy[OF 12(1)] show ?case by blast
next
  case 13 then show ?case by (rule sleep_views(3))
next
  case (14 s) then show ?case using redis_views_cong[OF sleep_views(1)] by blast
next
  case 15 then show ?case using redis_views_cong[OF sleep_views(1)] by blast
next
  case 17 then show ?case by (rule sleep_views(2))
next
  case 20
  show ?case
    by (rule publish_steps_keep_mono[OF world_batch_frame[where dlq = True, unfolded world_heap_def if_True,
          OF world_publisher_db] same_db_ripens])
next
  case (21 s l evs t i w)
  then have "pg_script s = []" by (simp add: world_healthy_def)
  note rows = fetch_rows[OF 21(1) this 21(4)]
  show ?case by (rule ripens[OF 21(6) rows(1,2)]) (use 21(5) in simp)
next
  case (22 s ids q t i w)
  then have "pg_script s = []" by (simp add: world_healthy_def)
  note rows = update_rows[OF this 22(2)]
  show ?case by (rule ripens[OF 22(4) rows(1,2)]) (use 22(3) in simp)
next
  case 23 then show ?case by (rule pg_due_rows)
next
  case (24 s thr q t)
  from drain_quiet[OF 24] orderly_same_db[OF redis_frame_db[OF drain_frame[OF 24(3)]]] show ?case by blast
next
  case (25 s es q t)
  then show ?case by (intro quarantine_quiet[of s cfg es c q t]) (simp_all add: world_healthy_def)
next
  case 26 then show ?case by (rule pg_other_published(3))
next
  case 27 then show ?case by (rule redis_frame_published[OF drain_frame])
qed simp_all

end
