(* ===== verification/Samples.thy ===== *)
theory Samples
  imports Healthy_World
begin

text \<open>
  Small concrete worlds and inputs on which the theorems of the development are applied: two or
  three rows, an empty script, an open channel. A row's id, token and instants are literals.
\<close>

definition sample_client :: "(my_event, string) pg_client" where
  "sample_client =
     \<lparr> to_value = (\<lambda>p. case p of HiOutbox x \<Rightarrow> Inr x),
       from_value = (\<lambda>j. if j = [] then Inl ''missing field'' else Inr (HiOutbox j)),
       duplicate_key_text = (\<lambda>name. ''duplicate key value violates unique constraint '' @ name) \<rparr>"

definition row :: "nat \<Rightarrow> event_status \<Rightarrow> instant \<Rightarrow> string event" where
  "row n st until =
     \<lparr> eid = EventId (of_nat n), idempotency_token = None, event_type = EventType ''OrderCreated'',
       payload = Payload ''Hi!'', created_at = 0, locked_until = until, status = st \<rparr>"

definition world_with :: "string event list \<Rightarrow> (my_event, string) world" where
  "world_with rows =
     \<lparr> outbox_events = rows, outbox_dead_letters = [], pg_now = 600000000, pg_script = [],
       listener = None, listen_script = [], channel = [], receiver_open = True, kafka_log = [],
       kafka_up = True, kafka_acks = [], redis_now = 0, redis_strings = [], redis_zsets = [], redis_script = [], cached_keys = [],
       metrics_log = [], stop_flag = False, sender_gone = False \<rparr>"

definition sample_redis :: redis_token_config where
  "sample_redis = \<lparr> ttl = 60 * nanos_per_sec, key_prefix = ''t'', local_cache_capacity = 2 \<rparr>"

definition sample_host :: host where
  "sample_host = \<lparr> now_v7 = ''v7'', new_v4 = 7, now_utc = 600000000 \<rparr>"

abbreviation sample_heap :: "(my_event, string) world dlq_heap" where
  "sample_heap \<equiv> RedisProvider_heap world_text (world_provider True sample_redis)"

abbreviation sample_processor :: "((my_event, string) world, my_event) outbox_processor" where
  "sample_processor \<equiv> OutboxProcessor_new (PostgresOutbox sample_client in_memory_config)
     (world_publisher Tokio_channel) in_memory_config"

lemma world_with_ok [simp]: "pg_ok (world_with rows) \<longleftrightarrow> distinct (map eid rows)"
  by (simp add: pg_ok_def world_with_def)

text \<open>What the simplifier needs to run the model on these inputs.\<close>

lemmas pg_run = pg_fetch_next_to_process_def pg_update_status_def pg_delete_garbage_def
  pg_quarantine_events_def pg_insert_event_def database_error_def run_stmt_def next_env_def
  quiet_env_def advance_def and_then_def Let_def sql_claim_def sql_select_next_def
  sql_update_status_def sql_delete_garbage_def sql_quarantine_def sql_insert_def claim_row_def
  claimable_def expired_def decode_row_def with_payload_def gc_limit_def

lemmas sample_run = sample_client_def row_def world_with_def in_memory_config_def minute_def day_def

lemmas redis_run = redis_record_failure_def redis_record_success_def redis_drain_exceeded_def
  redis_try_reserve_def drain_script_def and_then_def infrastructure_error_def redis_cmd_def on_zset_def
  world_zincrby_def world_zrem_def world_set_nx_ex_def world_zrangebyscore_def
  world_zremrangebyscore_def world_str_def world_zset_def zset_list_def put_zset_def Let_def
  world_text_def score_digits_def token_key_def dlq_key_def DLQ_KEY_SUFFIX_def world_cache_def
  cached_def cache_lookup_def str_lookup_def   as_secs_def nanos_per_sec_def sample_redis_def

lemmas intake_run = add_event_simps new_event_def Event_new_def EventId_default_def EventType_new_def
  Payload_new_def IdempotencyToken_new_def sample_host_def OutboxService_with_idempotency_def
  OutboxService_new_def no_event_def deduplication_config_def

lemma cache_sound_empty [simp]: "cache_sound (world_provider moka rcfg) world_str world_zset (world_with rows)"
  by (simp add: cache_sound_def world_cache_def cached_def cache_lookup_def world_with_def)

end
