(* ===== verification/Schema.thy ===== *)
theory Schema
  imports Postgres
begin

text \<open>
  The constraints that the migrations of \<^verbatim>\<open>outbox-postgres\<close> declare on what is stored, and that every
  call of the adapter keeps them, whatever the database answers.
\<close>

section \<open>The schema\<close>

text \<open>
  The constraints of the migrations on what is stored: the two primary keys and the unique index
  on the tokens of active rows, in which absent tokens do not clash. A call of the adapter is one of its six operations.
\<close>

definition schema_ok :: "('j, 'x) pg_state_scheme \<Rightarrow> bool" where
  "schema_ok s \<longleftrightarrow>
     distinct (map eid (outbox_events s)) \<and> distinct (map dl_id (outbox_dead_letters s)) \<and>
     distinct (filter (\<lambda>t. t \<noteq> None) (map idempotency_token (outbox_events s)))"

datatype 'p adapter_call =
    Call_fetch u32
  | Call_update "event_id list" event_status
  | Call_garbage
  | Call_wait string
  | Call_quarantine "dlq_entry list"
  | Call_insert "'p event"

fun after_call :: "('p, 'j) pg_client \<Rightarrow> 'p outbox_config \<Rightarrow> 'p adapter_call \<Rightarrow>
    ('j, 'x) pg_state_scheme \<Rightarrow> ('j, 'x) pg_state_scheme" where
  "after_call c cfg (Call_fetch l) s = snd (pg_fetch_next_to_process c cfg l s)"
| "after_call c cfg (Call_update ids st) s = snd (pg_update_status ids st s)"
| "after_call c cfg Call_garbage s = snd (pg_delete_garbage cfg s)"
| "after_call c cfg (Call_wait ch) s = snd (pg_wait_for_notification ch s)"
| "after_call c cfg (Call_quarantine es) s = snd (pg_quarantine_events c es s)"
| "after_call c cfg (Call_insert e) s = snd (pg_insert_event c e s)"

lemma run_stmt_keeps:
  assumes "P (advance s)" and "\<And>env s. P s \<Longrightarrow> P (snd (body env s))"
  shows "P (snd (run_stmt body s))"
  using assms by (auto simp: run_stmt_def split: option.splits pg_fault.splits)

lemma database_error_keeps: "P (snd (c s)) \<Longrightarrow> P (snd (database_error c s))"
  by (auto simp: database_error_def split: prod.splits sum.splits)

lemma schema_advance [simp]: "schema_ok (advance s) = schema_ok s"
  by (simp add: schema_ok_def)

lemma schema_map:
  assumes "schema_ok s" and "\<And>r. eid (g r) = eid r"
    and "\<And>r. idempotency_token (g r) = idempotency_token r"
  shows "schema_ok (s\<lparr> outbox_events := map (\<lambda>r. if P r then g r else r) (outbox_events s) \<rparr>)"
proof -
  have "map eid (map (\<lambda>r. if P r then g r else r) xs) = map eid xs"
    and "map idempotency_token (map (\<lambda>r. if P r then g r else r) xs) = map idempotency_token xs" for xs
    using assms(2,3) by (induction xs) auto
  with assms(1) show ?thesis by (simp add: schema_ok_def del: map_map)
qed

lemma distinct_filter_map_filter:
  "distinct (filter Q (map f xs)) \<Longrightarrow> distinct (filter Q (map f (filter P xs)))"
  by (induction xs) auto

lemma schema_filter:
  "schema_ok s \<Longrightarrow> schema_ok (s\<lparr> outbox_events := filter P (outbox_events s) \<rparr>)"
  by (simp add: schema_ok_def distinct_map_filter distinct_filter_map_filter)

lemma schema_claim: "schema_ok s \<Longrightarrow> schema_ok (snd (sql_claim l mins env s))"
  by (simp add: sql_claim_def Let_def schema_map)

lemma schema_update: "schema_ok s \<Longrightarrow> schema_ok (snd (sql_update_status st ids env s))"
  by (simp add: sql_update_status_def schema_map)

lemma schema_garbage: "schema_ok s \<Longrightarrow> schema_ok (snd (sql_delete_garbage days env s))"
  by (simp add: sql_delete_garbage_def Let_def schema_filter)

lemma schema_quarantine: "schema_ok s \<Longrightarrow> schema_ok (snd (sql_quarantine dup ids ns errs env s))"
  using schema_filter[of s "\<lambda>r. eid r \<notin> set ids"]
  by (auto simp: sql_quarantine_def Let_def schema_ok_def)

lemma schema_insert:
  assumes "schema_ok s"
  shows "schema_ok (snd (sql_insert dup r env s))"
proof -
  have "distinct (filter (\<lambda>t. t \<noteq> None) (map idempotency_token (xs @ [r])))"
    if "distinct (filter (\<lambda>t. t \<noteq> None) (map idempotency_token xs))"
      and "idempotency_token r = None \<or> idempotency_token r \<notin> idempotency_token ` set xs" for xs
    using that by auto
  with assms show ?thesis by (simp add: sql_insert_def schema_ok_def)
qed

lemma schema_listener [simp]:
  "schema_ok (s\<lparr> listener := x \<rparr>) = schema_ok s" "schema_ok (s\<lparr> listen_script := y \<rparr>) = schema_ok s"
  by (simp_all add: schema_ok_def)

lemma schema_wait: "schema_ok s \<Longrightarrow> schema_ok (snd (pg_wait_for_notification ch s))"
  by (simp add: pg_wait_for_notification_def Let_def split: option.splits)

lemmas schema_statements = schema_claim schema_update schema_garbage schema_quarantine schema_insert

lemma schema_stmt:
  "(\<And>env s. schema_ok s \<Longrightarrow> schema_ok (snd (body env s))) \<Longrightarrow> schema_ok s \<Longrightarrow>
     schema_ok (snd (database_error (run_stmt body) s))"
  by (rule database_error_keeps, rule run_stmt_keeps[where P = schema_ok]) simp_all

lemma schema_fetch: "schema_ok s \<Longrightarrow> schema_ok (snd (pg_fetch_next_to_process c cfg l s))"
proof -
  assume ok: "schema_ok s"
  have "schema_ok (snd (run_stmt (sql_claim (unat l) (sint (lock_timeout_mins cfg))) s))"
    by (rule run_stmt_keeps[where P = schema_ok]) (simp_all add: ok schema_claim)
  then show ?thesis
    by (auto simp: pg_fetch_next_to_process_def database_error_def and_then_def
        split: prod.splits sum.splits)
qed

lemma schema_unit_calls:
  assumes "schema_ok s"
  shows "schema_ok (snd (pg_update_status ids st s))" and "schema_ok (snd (pg_delete_garbage cfg s))"
    and "schema_ok (snd (pg_quarantine_events c es s))" and "schema_ok (snd (pg_insert_event c e s))"
proof -
  show "schema_ok (snd (pg_update_status ids st s))"
    unfolding pg_update_status_def by (rule schema_stmt[OF schema_update assms])
  show "schema_ok (snd (pg_delete_garbage cfg s))"
    unfolding pg_delete_garbage_def by (rule schema_stmt[OF schema_garbage assms])
  show "schema_ok (snd (pg_quarantine_events c es s))"
    unfolding pg_quarantine_events_def using assms schema_stmt[OF schema_quarantine assms] by simp
  show "schema_ok (snd (pg_insert_event c e s))"
    unfolding pg_insert_event_def using assms schema_stmt[OF schema_insert assms]
    by (simp split: sum.split)
qed

lemma schema_call: "schema_ok s \<Longrightarrow> schema_ok (after_call c cfg call s)"
  by (cases call) (simp_all add: schema_wait schema_fetch schema_unit_calls)

end
