(* ===== verification/Notifications.thy ===== *)
theory Notifications
  imports Schema
begin

text \<open>
  The trigger of \<^verbatim>\<open>migrations/20260213152819_init.sql\<close> and the worker that listens to it. The trigger runs
  after the insert or update of each row and calls \<open>pg_notify('outbox_event', 'ping')\<close>; PostgreSQL
  delivers equal notifications of one transaction once, when it commits, to the connections that
  listen. So a statement of the adapter sends one ping when it commits and has written a row.
\<close>

section \<open>The trigger\<close>

fun rows_written :: "('p, 'j) pg_client \<Rightarrow> 'p adapter_call \<Rightarrow> ('j, 'x) pg_state_scheme \<Rightarrow> event_id list" where
  "rows_written c (Call_fetch l) s = sql_select_next (unat l) (next_env s) (advance s)"
| "rows_written c (Call_update ids st) s = filter (\<lambda>i. i \<in> set ids) (map eid (outbox_events s))"
| "rows_written c (Call_insert e) s =
     (case to_value c (as_value (payload e)) of
        Inl _ \<Rightarrow> []
      | Inr j \<Rightarrow>
          (case fst (sql_insert (duplicate_key_text c) (with_payload (Payload j) e) (next_env s) (advance s)) of
             Inl _ \<Rightarrow> []
           | Inr _ \<Rightarrow> [eid e]))"
| "rows_written c _ s = []"

definition commits :: "('j, 'x) pg_state_scheme \<Rightarrow> bool" where
  "commits s \<longleftrightarrow> (case fault (next_env s) of Some (Refused _) \<Rightarrow> False | _ \<Rightarrow> True)"

definition notify_outbox_event :: "('p, 'j) pg_client \<Rightarrow> 'p adapter_call \<Rightarrow> ('j, 'x) pg_state_scheme \<Rightarrow> bool" where
  "notify_outbox_event c call s \<longleftrightarrow> commits s \<and> rows_written c call s \<noteq> []"

section \<open>The listening worker\<close>

text \<open>
  The manager's worker, as far as notifications matter. It is \<open>Draining\<close>, or it waits: \<open>Caught_up\<close> when
  its last drain ended on an empty batch under a live subscription, \<open>Behind\<close> otherwise (nothing
  drained yet, no subscription, an error ended the drain, or the connection was lost since).
  \<open>pings\<close> are the notifications delivered to the subscription and not yet received.
\<close>

datatype phase = Behind | Caught_up | Draining

record 'w station =
  db :: 'w
  subscribed :: bool
  pings :: nat
  phase :: phase

definition ring :: "('p, 'j) pg_client \<Rightarrow> 'p adapter_call \<Rightarrow> ('j, 'x) pg_state_scheme station \<Rightarrow> nat" where
  "ring c call S = (if subscribed S \<and> notify_outbox_event c call (db S) then Suc (pings S) else pings S)"

fun waits :: "'p adapter_call \<Rightarrow> bool" where
  "waits (Call_wait ch) = True"
| "waits _ = False"

text \<open>
  What the database does not notice: time passes, or a step of the deployment reaches the broker or the
  heap only.
\<close>

definition tables_kept :: "('j, 'x) pg_state_scheme \<Rightarrow> ('j, 'x) pg_state_scheme \<Rightarrow> bool" where
  "tables_kept s t \<longleftrightarrow> outbox_events t = outbox_events s \<and> outbox_dead_letters t = outbox_dead_letters s \<and>
     pg_script t = pg_script s"

inductive wake_step :: "('p, 'j) pg_client \<Rightarrow> 'p outbox_config \<Rightarrow> ('j, 'x) pg_state_scheme station \<Rightarrow>
    ('j, 'x) pg_state_scheme station \<Rightarrow> bool"
  for c :: "('p, 'j) pg_client" and cfg :: "'p outbox_config" where
  others: "\<not> waits call \<Longrightarrow>
    wake_step c cfg S (S\<lparr> db := after_call c cfg call (db S), pings := ring c call S \<rparr>)"
| elsewhere: "tables_kept (db S) t \<Longrightarrow> wake_step c cfg S (S\<lparr> db := t \<rparr>)"
| connection_lost: "wake_step c cfg S (S\<lparr> subscribed := False, pings := 0,
    phase := (if phase S = Draining then Draining else Behind) \<rparr>)"
| subscribe: "\<not> subscribed S \<Longrightarrow> phase S \<noteq> Draining \<Longrightarrow>
    wake_step c cfg S (S\<lparr> subscribed := True, pings := 0 \<rparr>)"
| received: "subscribed S \<Longrightarrow> pings S = Suc n \<Longrightarrow> phase S \<noteq> Draining \<Longrightarrow>
    wake_step c cfg S (S\<lparr> pings := n, phase := Draining \<rparr>)"
| poll: "phase S \<noteq> Draining \<Longrightarrow> wake_step c cfg S (S\<lparr> phase := Draining \<rparr>)"
| claimed: "phase S = Draining \<Longrightarrow>
    pg_fetch_next_to_process c cfg (batch_size cfg) (db S) = (Inr evs, t) \<Longrightarrow> evs \<noteq> [] \<Longrightarrow>
    wake_step c cfg S (S\<lparr> db := t, pings := ring c (Call_fetch (batch_size cfg)) S \<rparr>)"
| marked: "phase S = Draining \<Longrightarrow> pg_update_status ids Sent (db S) = (Inr u, t) \<Longrightarrow>
    wake_step c cfg S (S\<lparr> db := t, pings := ring c (Call_update ids Sent) S \<rparr>)"
| drained: "phase S = Draining \<Longrightarrow>
    pg_fetch_next_to_process c cfg (batch_size cfg) (db S) = (Inr [], t) \<Longrightarrow>
    wake_step c cfg S (S\<lparr> db := t, pings := ring c (Call_fetch (batch_size cfg)) S,
      phase := (if subscribed S then Caught_up else Behind) \<rparr>)"
| fetch_failed: "phase S = Draining \<Longrightarrow>
    pg_fetch_next_to_process c cfg (batch_size cfg) (db S) = (Inl e, t) \<Longrightarrow>
    wake_step c cfg S (S\<lparr> db := t, pings := ring c (Call_fetch (batch_size cfg)) S, phase := Behind \<rparr>)"
| mark_failed: "phase S = Draining \<Longrightarrow> pg_update_status ids Sent (db S) = (Inl e, t) \<Longrightarrow>
    wake_step c cfg S (S\<lparr> db := t, pings := ring c (Call_update ids Sent) S, phase := Behind \<rparr>)"
| heap_failed: "phase S = Draining \<Longrightarrow> wake_step c cfg S (S\<lparr> phase := Behind \<rparr>)"

abbreviation wake_steps :: "('p, 'j) pg_client \<Rightarrow> 'p outbox_config \<Rightarrow> ('j, 'x) pg_state_scheme station \<Rightarrow>
    ('j, 'x) pg_state_scheme station \<Rightarrow> bool" where
  "wake_steps c cfg \<equiv> (wake_step c cfg)\<^sup>*\<^sup>*"

section \<open>No wake-up is lost\<close>

definition has_pending :: "('j, 'x) pg_state_scheme \<Rightarrow> bool" where
  "has_pending s \<longleftrightarrow> (\<exists>r \<in> set (outbox_events s). status r = Pending)"

definition no_foreign_locks :: "('j, 'x) pg_state_scheme \<Rightarrow> bool" where
  "no_foreign_locks s \<longleftrightarrow> (\<forall>env \<in> set (pg_script s). row_locked env = [])"

lemma after_call_ok: "pg_ok s \<Longrightarrow> pg_ok (after_call c cfg call s)"
proof (cases call)
  case (Call_fetch l)
  obtain r t where "pg_fetch_next_to_process c cfg l s = (r, t)" by fastforce
  then show "pg_ok s \<Longrightarrow> ?thesis"
    using pg_fetch_law_ok[of s c cfg l _ t] pg_fetch_law_err[of s c cfg l _ t] Call_fetch by (cases r) auto
next
  case (Call_update ids st)
  obtain r t where "pg_update_status ids st s = (r, t)" by fastforce
  then show "pg_ok s \<Longrightarrow> ?thesis" using pg_update_law[of s ids st r t] Call_update by simp
next
  case Call_garbage
  obtain r t where "pg_delete_garbage cfg s = (r, t)" by fastforce
  then show "pg_ok s \<Longrightarrow> ?thesis" using pg_garbage_law[of s cfg r t] Call_garbage by simp
next
  case (Call_quarantine es)
  obtain r t where "pg_quarantine_events c es s = (r, t)" by fastforce
  then show "pg_ok s \<Longrightarrow> ?thesis" using pg_quarantine_law[of s c es r t] Call_quarantine by simp
next
  case (Call_insert e)
  obtain r t where "pg_insert_event c e s = (r, t)" by fastforce
  then show "pg_ok s \<Longrightarrow> ?thesis" using pg_insert_law[of s c e r t] Call_insert by simp
next
  case (Call_wait ch)
  then show "pg_ok s \<Longrightarrow> ?thesis"
    by (auto simp: pg_wait_for_notification_def Let_def pg_ok_def split: option.splits)
qed

text \<open>What a statement leaves behind: the effect of its body when it commits, the passing of time otherwise.\<close>

lemma stmt_effect:
  "snd (database_error (run_stmt body) s) =
     (if commits s then snd (body (next_env s) (advance s)) else advance s)"
  by (auto simp: database_error_def run_stmt_def commits_def split: option.splits pg_fault.splits
      prod.splits sum.splits)

lemma call_effects:
  "after_call c cfg (Call_fetch l) s = (if commits s
     then snd (sql_claim (unat l) (sint (lock_timeout_mins cfg)) (next_env s) (advance s)) else advance s)"
  "after_call c cfg (Call_update ids st) s =
     (if commits s then snd (sql_update_status st ids (next_env s) (advance s)) else advance s)"
  "after_call c cfg Call_garbage s =
     (if commits s then snd (sql_delete_garbage (sint (retention_days cfg)) (next_env s) (advance s)) else advance s)"
  "after_call c cfg (Call_quarantine es) s =
     (if es = [] then s else if commits s then snd (sql_quarantine (duplicate_key_text c) (map dlq_id es)
        (map (\<lambda>e. i32_saturating (failure_count e)) es) (map last_error es) (next_env s) (advance s))
      else advance s)"
  "after_call c cfg (Call_insert e) s =
     (case to_value c (as_value (payload e)) of
        Inl _ \<Rightarrow> s
      | Inr j \<Rightarrow> if commits s then snd (sql_insert (duplicate_key_text c) (with_payload (Payload j) e)
          (next_env s) (advance s)) else advance s)"
proof -
  have "snd (pg_fetch_next_to_process c cfg l s) =
      snd (database_error (run_stmt (sql_claim (unat l) (sint (lock_timeout_mins cfg)))) s)"
    by (auto simp: pg_fetch_next_to_process_def database_error_def and_then_def split: prod.splits sum.splits)
  then show "after_call c cfg (Call_fetch l) s = (if commits s
     then snd (sql_claim (unat l) (sint (lock_timeout_mins cfg)) (next_env s) (advance s)) else advance s)"
    by (simp add: stmt_effect)
qed (simp_all add: pg_update_status_def pg_delete_garbage_def pg_quarantine_events_def pg_insert_event_def
    stmt_effect split: sum.split)

lemma locks_advance: "no_foreign_locks s \<Longrightarrow> no_foreign_locks (advance s)"
  by (cases "pg_script s") (auto simp: no_foreign_locks_def)

lemma locks_call:
  assumes "no_foreign_locks s"
  shows "no_foreign_locks (after_call c cfg call s)"
proof (cases call)
  case (Call_wait ch)
  with assms show ?thesis
    by (simp add: pg_wait_for_notification_def Let_def no_foreign_locks_def split: option.split)
next
  case (Call_insert e)
  with locks_advance[OF assms] assms show ?thesis
    by (simp add: call_effects sql_insert_def no_foreign_locks_def del: after_call.simps split: sum.split)
qed (use locks_advance[OF assms] assms in \<open>simp_all add: call_effects sql_claim_def sql_update_status_def
    sql_delete_garbage_def sql_quarantine_def Let_def no_foreign_locks_def del: after_call.simps\<close>)

text \<open>A row becomes \<open>Pending\<close> only by a statement that the trigger announces.\<close>

lemma pending_is_announced:
  assumes "\<not> waits call" and "has_pending (after_call c cfg call s)" and "\<not> has_pending s"
  shows "notify_outbox_event c call s"
proof (cases call)
  case (Call_fetch l)
  with assms show ?thesis
    by (auto simp: call_effects sql_claim_def Let_def has_pending_def simp del: after_call.simps split: if_splits)
next
  case (Call_update ids st)
  with assms show ?thesis
    by (fastforce simp: call_effects sql_update_status_def has_pending_def notify_outbox_event_def
        filter_empty_conv simp del: after_call.simps split: if_splits)
next
  case (Call_quarantine es)
  with assms show ?thesis
    by (auto simp: call_effects sql_quarantine_def Let_def has_pending_def simp del: after_call.simps split: if_splits)
next
  case (Call_insert e)
  with assms show ?thesis
    by (auto simp: call_effects sql_insert_def has_pending_def notify_outbox_event_def
        simp del: after_call.simps split: if_splits sum.splits)
qed (use assms in \<open>auto simp: call_effects sql_delete_garbage_def Let_def has_pending_def
    simp del: after_call.simps split: if_splits\<close>)

lemma empty_fetch_no_pending:
  assumes ok: "pg_ok s" and locks: "no_foreign_locks s" and size: "l \<noteq> 0"
    and run: "pg_fetch_next_to_process c cfg l s = (Inr [], t)"
  shows "\<not> has_pending t"
proof
  assume "has_pending t"
  then obtain r where r: "r \<in> set (outbox_events s)" "status r = Pending"
    using fetch_exact(3)[OF ok run] by (auto simp: has_pending_def)
  have "row_locked (next_env s) = []"
    using locks by (cases "pg_script s") (auto simp: next_env_def quiet_env_def no_foreign_locks_def)
  with r have "r \<in> set (filter (eligible (next_env s) (advance s)) (outbox_events s))"
    by (simp add: eligible_def claimable_def)
  then have "0 < length (filter (eligible (next_env s) (advance s)) (outbox_events s))"
    by (rule length_pos_if_in_set)
  moreover have "0 < unat l" using size by (simp add: unat_gt_0)
  ultimately have "0 < min (unat l) (length (filter (eligible (next_env s) (advance s)) (outbox_events s)))"
    by simp
  then show False unfolding fetch_exact(2)[OF ok run, symmetric] by simp
qed

definition wake_inv :: "('j, 'x) pg_state_scheme station \<Rightarrow> bool" where
  "wake_inv S \<longleftrightarrow> pg_ok (db S) \<and> no_foreign_locks (db S) \<and>
     (phase S = Caught_up \<longrightarrow> subscribed S \<and> (has_pending (db S) \<longrightarrow> 0 < pings S))"

lemma fetch_as_call: "pg_fetch_next_to_process c cfg l s = (r, t) \<Longrightarrow> t = after_call c cfg (Call_fetch l) s"
  by simp

lemma update_as_call: "pg_update_status ids st s = (r, t) \<Longrightarrow> t = after_call c cfg (Call_update ids st) s"
  by simp

lemma wake_step_inv:
  assumes "wake_step c cfg S T" and size: "batch_size cfg \<noteq> 0" and inv: "wake_inv S"
  shows "wake_inv T"
  using assms(1)
proof cases
  case (others call)
  have "0 < ring c call S" if "phase S = Caught_up" "has_pending (after_call c cfg call (db S))"
    using inv that pending_is_announced[OF others(2) that(2)] unfolding wake_inv_def ring_def by auto
  with others inv show ?thesis by (auto simp: wake_inv_def after_call_ok locks_call simp del: after_call.simps)
next
  case (elsewhere t)
  with inv show ?thesis by (simp add: wake_inv_def tables_kept_def pg_ok_def no_foreign_locks_def has_pending_def)
next
  case (claimed evs t)
  from fetch_as_call[OF claimed(3)] inv claimed show ?thesis
    by (auto simp: wake_inv_def after_call_ok locks_call simp del: after_call.simps)
next
  case (marked ids u t)
  from update_as_call[OF marked(3), of c cfg] inv marked show ?thesis
    by (auto simp: wake_inv_def after_call_ok locks_call simp del: after_call.simps)
next
  case (drained t)
  have "\<not> has_pending t"
    using empty_fetch_no_pending[OF _ _ size drained(3)] inv by (simp add: wake_inv_def)
  with fetch_as_call[OF drained(3)] inv drained show ?thesis
    by (auto simp: wake_inv_def after_call_ok locks_call simp del: after_call.simps)
next
  case (fetch_failed e t)
  from fetch_as_call[OF fetch_failed(3)] inv fetch_failed show ?thesis
    by (auto simp: wake_inv_def after_call_ok locks_call simp del: after_call.simps)
next
  case (mark_failed ids e t)
  from update_as_call[OF mark_failed(3), of c cfg] inv mark_failed show ?thesis
    by (auto simp: wake_inv_def after_call_ok locks_call simp del: after_call.simps)
qed (use inv in \<open>simp_all add: wake_inv_def\<close>)

lemma wake_steps_inv:
  "wake_steps c cfg S T \<Longrightarrow> batch_size cfg \<noteq> 0 \<Longrightarrow> wake_inv S \<Longrightarrow> wake_inv T"
  by (induction rule: rtranclp_induct) (auto dest: wake_step_inv)

end
