(* ===== verification/Storage_Properties.thy ===== *)
theory Storage_Properties
  imports Samples Notifications
begin

text \<open>
  What the PostgreSQL adapter does, statement by statement, under any script of faults, delays, row
  locks and scan orders. \<open>advance s\<close> is the world when the statement reads \<open>NOW()\<close>.
\<close>

section \<open>Claiming\<close>

text \<open>
  C12. A successful fetch claims exactly what its query says: as many of the eligible rows (pending,
  or processing under an expired lock, and not locked by another transaction) as the limit allows,
  those with the oldest \<open>locked_until\<close> first; it returns their decoded contents under the new lock
  and leaves every other row as it was.
\<close>
theorem fetch_claims_oldest_eligible:
  fixes s :: "('j, 'x) pg_state_scheme"
  assumes ok: "pg_ok s" and run: "pg_fetch_next_to_process c cfg l s = (Inr evs, t)"
  defines "until \<equiv> pg_now (advance s) + minute * sint (lock_timeout_mins cfg)"
  defines "can \<equiv> eligible (next_env s) (advance s)"
  shows "set evs = {e. \<exists>r \<in> set (outbox_events s). eid r \<in> eid ` set evs \<and>
        decode_row (from_value c) (claim_row until r) = Inr e} \<and>
    length evs = min (unat l) (length (filter can (outbox_events s))) \<and>
    outbox_events t =
      map (\<lambda>r. if eid r \<in> eid ` set evs then claim_row until r else r) (outbox_events s) \<and>
    (\<forall>r \<in> set (outbox_events s). eid r \<in> eid ` set evs \<longrightarrow> can r \<and>
      (\<forall>r' \<in> set (outbox_events s). can r' \<and> eid r' \<notin> eid ` set evs \<longrightarrow>
         locked_until r \<le> locked_until r'))"
  unfolding until_def can_def by (intro conjI fetch_exact[OF ok run])

theorem fetch_claims_oldest_eligible_witness:
  "\<exists>evs t. pg_fetch_next_to_process sample_client in_memory_config 1
      (world_with [row 1 Pending 5, row 2 Pending 3, row 3 Sent 0]) = (Inr evs, t) \<and>
    map eid evs = [EventId 2] \<and>
    outbox_events t = [row 1 Pending 5, claim_row 660000000 (row 2 Pending 3), row 3 Sent 0]"
proof -
  let ?s = "world_with [row 1 Pending 5, row 2 Pending 3, row 3 Sent 0]"
  obtain evs t where run: "pg_fetch_next_to_process sample_client in_memory_config 1 ?s = (Inr evs, t)"
    and ids: "map eid evs = [EventId 2]" by (simp add: pg_run sample_run)
  have "pg_ok ?s" by (simp add: row_def)
  note claim = fetch_claims_oldest_eligible[OF this run]
  have E: "eid ` set evs = {EventId 2}" using ids by (metis list.set(1,2) list.set_map)
  have "outbox_events t = [row 1 Pending 5, claim_row 660000000 (row 2 Pending 3), row 3 Sent 0]"
    using claim unfolding E by (simp add: sample_run advance_def next_env_def quiet_env_def)
  with run ids show ?thesis by (intro exI conjI)
qed

text \<open>
  No event is handed to two workers while its lock holds: of two consecutive fetches, the second
  returns none of the events of the first unless its clock has passed their lock.
\<close>
theorem fetches_disjoint_under_lock:
  assumes ok: "pg_ok s" and first: "pg_fetch_next_to_process c cfg l s = (Inr evs, t)"
    and second: "pg_fetch_next_to_process c' cfg' l' t = (Inr evs', u)"
    and lock: "pg_now (advance t) \<le> pg_now (advance s) + minute * sint (lock_timeout_mins cfg)"
  shows "eid ` set evs \<inter> eid ` set evs' = {}"
proof -
  let ?until = "pg_now (advance s) + minute * sint (lock_timeout_mins cfg)"
  have t: "pg_ok t" using pg_fetch_law_ok[OF ok first] by blast
  have "\<not> claimable (pg_now (advance t)) r"
    if "r \<in> set (outbox_events t)" "eid r \<in> eid ` set evs" for r
  proof -
    from that fetch_exact(3)[OF ok first] obtain x where "r = claim_row ?until x"
      by (auto split: if_splits)
    with lock show ?thesis by (simp add: claimable_def)
  qed
  moreover have "\<exists>r \<in> set (outbox_events t). eid r = i \<and> claimable (pg_now (advance t)) r"
    if "i \<in> eid ` set evs'" for i
    using that fetched_eligible[OF t second] by (auto simp: eligible_def)
  ultimately show ?thesis by blast
qed

theorem fetches_disjoint_under_lock_witness:
  "\<exists>evs t evs' u. pg_fetch_next_to_process sample_client in_memory_config 1
      (world_with [row 1 Pending 0, row 2 Pending 3]) = (Inr evs, t) \<and>
    pg_fetch_next_to_process sample_client in_memory_config 2 t = (Inr evs', u) \<and>
    length evs' = 1 \<and> eid ` set evs \<inter> eid ` set evs' = {}"
proof -
  let ?s = "world_with [row 1 Pending 0, row 2 Pending 3]"
  obtain evs t evs' u where
    run: "pg_fetch_next_to_process sample_client in_memory_config 1 ?s = (Inr evs, t)"
      "pg_fetch_next_to_process sample_client in_memory_config 2 t = (Inr evs', u)"
    and "length evs' = 1" and now: "pg_now t = 600000000" "pg_script t = []"
    by (simp add: pg_run sample_run)
  have "pg_ok ?s" by (simp add: row_def)
  from fetches_disjoint_under_lock[OF this run] now have "eid ` set evs \<inter> eid ` set evs' = {}"
    by (simp add: advance_def next_env_def quiet_env_def sample_run)
  with run \<open>length evs' = 1\<close> show ?thesis by (intro exI conjI)
qed

section \<open>Collecting garbage\<close>



section \<open>Quarantine\<close>

lemma i32_saturating_value: "sint (i32_saturating n) = int (min (unat n) (2 ^ 31 - 1))"
proof (cases "unat n < 2 ^ 31")
  case True
  from True have "int (unat n) < int (2 ^ 31)" by (simp only: of_nat_less_iff)
  then have "uint n < 2 ^ 31" by simp
  then have "sint n = uint n" by (simp add: sint_uint signed_take_bit_int_eq_self order.trans[OF _ uint_ge_0])
  then have "sint n = int (unat n)" by simp
  with True show ?thesis by (simp add: i32_saturating_def)
next
  case False
  then show ?thesis by (simp add: i32_saturating_def)
qed

lemma quarantine_rows:
  assumes dist: "distinct (map dlq_id es)"
  shows "set (concat (map (\<lambda>d. map (\<lambda>(i, n, le). dead_of now n le d)
      (filter (\<lambda>(i, _). eid d = i) (zip (map dlq_id es) (zip (map f es) (map last_error es)))))
      (filter (\<lambda>r. eid r \<in> set (map dlq_id es)) rows))) =
    {dead_of now (f x) (last_error x) r | x r. x \<in> set es \<and> r \<in> set rows \<and> eid r = dlq_id x}"
proof -
  have "zip (map dlq_id es) (zip (map f es) (map last_error es)) =
      map (\<lambda>x. (dlq_id x, f x, last_error x)) es"
    by (induction es) simp_all
  then show ?thesis by (auto simp: image_iff) blast+
qed



text \<open>
  C17. A quarantine that returns an error has not moved anything, or has moved all of it and lost the
  acknowledgement; no row is ever dropped without its dead letter.
\<close>
theorem quarantine_all_or_nothing:
  fixes s :: "('j, 'x) pg_state_scheme"
  assumes ok: "pg_ok s" and run: "pg_quarantine_events c es s = (r, t)"
  shows "pg_ok t \<and>
    (outbox_events t = outbox_events s \<and> outbox_dead_letters t = outbox_dead_letters s \<or>
     outbox_events t = filter (\<lambda>r. eid r \<notin> dlq_id ` set es) (outbox_events s) \<and>
     pg_dead t = pg_dead s \<union> (dlq_id ` set es \<inter> eid ` set (outbox_events s)))"
proof (cases "es = []")
  case True
  then show ?thesis using ok run by (simp add: pg_quarantine_events_def)
next
  case False
  have inv: "pg_ok t" using pg_quarantine_law[OF ok run] by blast
  define J where "J = concat (map (\<lambda>d. map (\<lambda>(i, n, le). dead_of (pg_now (advance s)) n le d)
    (filter (\<lambda>(i, _). eid d = i) (zip (map dlq_id es)
      (zip (map (\<lambda>e. i32_saturating (failure_count e)) es) (map last_error es)))))
    (filter (\<lambda>r. eid r \<in> set (map dlq_id es)) (outbox_events s)))"
  have ids: "dl_id ` set J = set (map dlq_id es) \<inter> eid ` set (outbox_events s)"
    unfolding J_def by (rule quarantine_joined_ids) simp_all
  from run False have "database_error (run_stmt (sql_quarantine (duplicate_key_text c) (map dlq_id es)
    (map (\<lambda>e. i32_saturating (failure_count e)) es) (map last_error es))) s = (r, t)"
    by (simp add: pg_quarantine_events_def)
  then show ?thesis
  proof (cases rule: pg_unit_stmt_cases)
    case (ran q)
    then have "outbox_events t = outbox_events s \<and> outbox_dead_letters t = outbox_dead_letters s \<or>
      outbox_events t = filter (\<lambda>r. eid r \<notin> set (map dlq_id es)) (outbox_events s) \<and>
      outbox_dead_letters t = outbox_dead_letters s @ J"
      unfolding J_def by (auto simp: sql_quarantine_def Let_def simp del: set_map split: if_splits)
    moreover have "outbox_dead_letters t = outbox_dead_letters s @ J \<Longrightarrow>
      pg_dead t = pg_dead s \<union> set (map dlq_id es) \<inter> eid ` set (outbox_events s)"
      using ids by (simp add: pg_dead_def image_Un)
    ultimately show ?thesis using inv unfolding set_map by blast
  next
    case (refused m)
    then show ?thesis using inv by simp
  qed
qed

theorem quarantine_all_or_nothing_witness:
  "\<exists>m t. pg_quarantine_events sample_client
      [DlqEntry_new (EventId 1) 3 None, DlqEntry_new (EventId 1) 3 None]
      (world_with [row 1 Processing 5]) = (Inl (DatabaseError m), t) \<and> pg_ok t"
proof -
  let ?s = "world_with [row 1 Processing 5]"
  let ?es = "[DlqEntry_new (EventId 1) 3 None, DlqEntry_new (EventId 1) 3 None]"
  obtain m t where run: "pg_quarantine_events sample_client ?es ?s = (Inl (DatabaseError m), t)"
    by (simp add: pg_run sample_run DlqEntry_new_def)
  have "pg_ok ?s" by simp
  from quarantine_all_or_nothing[OF this run] run show ?thesis by (intro exI[of _ m] exI[of _ t] conjI) simp_all
qed

section \<open>The schema\<close>



section \<open>Inserting and reading back\<close>

text \<open>
  C29. An insert that succeeds adds exactly one row, the event with its payload encoded, and neither
  its id nor its token (unless it has none) was in the table; an insert that fails because of either
  key leaves the table alone. So among active rows, tokens stay unique.
\<close>
theorem insert_keeps_tokens_unique:
  fixes s :: "('j, 'x) pg_state_scheme"
  assumes uniq: "\<forall>a \<in> set (outbox_events s). \<forall>b \<in> set (outbox_events s).
      idempotency_token a = idempotency_token b \<and> idempotency_token a \<noteq> None \<longrightarrow> eid a = eid b"
    and run: "pg_insert_event c e s = (Inr u, t)"
  shows "(\<exists>j. to_value c (as_value (payload e)) = Inr j \<and>
      outbox_events t = outbox_events s @ [with_payload (Payload j) e]) \<and>
    (\<forall>a \<in> set (outbox_events t). \<forall>b \<in> set (outbox_events t).
      idempotency_token a = idempotency_token b \<and> idempotency_token a \<noteq> None \<longrightarrow> eid a = eid b)"
proof -
  obtain j where j: "to_value c (as_value (payload e)) = Inr j"
    and t: "t = (advance s)\<lparr> outbox_events := outbox_events s @ [with_payload (Payload j) e] \<rparr>"
    and tok: "idempotency_token e = None \<or>
      idempotency_token e \<notin> idempotency_token ` set (outbox_events s)"
    by (rule insert_ok[OF run])
  have tok': "idempotency_token e \<noteq> idempotency_token x"
    if "x \<in> set (outbox_events s)" and "idempotency_token e \<noteq> None" for x
    using tok that by (metis imageI)
  have "idempotency_token (with_payload (Payload j) e) = idempotency_token e"
    by (simp add: with_payload_def)
  with j t tok' uniq show ?thesis by (auto simp: eq_commute[of _ "idempotency_token e"]) metis+
qed

theorem insert_keeps_tokens_unique_witness:
  "\<exists>t. pg_insert_event sample_client (new_event sample_host ''a'' (HiOutbox ''x'') (Some (IdempotencyToken ''k'')))
      (world_with [row 1 Pending 0]) = (Inr (), t) \<and>
    (\<exists>j. outbox_events t = [row 1 Pending 0,
       with_payload (Payload j) (new_event sample_host ''a'' (HiOutbox ''x'') (Some (IdempotencyToken ''k'')))])"
proof -
  let ?s = "world_with [row 1 Pending 0]"
  let ?e = "new_event sample_host ''a'' (HiOutbox ''x'') (Some (IdempotencyToken ''k''))"
  obtain t where run: "pg_insert_event sample_client ?e ?s = (Inr (), t)"
    by (simp add: pg_run sample_run new_event_def Event_new_def EventId_default_def Payload_new_def
        sample_host_def)
  have "\<forall>a \<in> set (outbox_events ?s). \<forall>b \<in> set (outbox_events ?s).
      idempotency_token a = idempotency_token b \<and> idempotency_token a \<noteq> None \<longrightarrow> eid a = eid b"
    by (simp add: world_with_def)
  from insert_keeps_tokens_unique[OF this run] obtain j where
    "outbox_events t = outbox_events ?s @ [with_payload (Payload j) ?e]" by blast
  then have "\<exists>j. outbox_events t = [row 1 Pending 0, with_payload (Payload j) ?e]"
    by (intro exI[of _ j]) (simp add: world_with_def)
  with run show ?thesis by (intro exI[of _ t] conjI)
qed



text \<open>
  C26. A row whose payload does not decode poisons its whole batch: when such a row is among those
  claimed, the fetch returns a database error although every claimed row is now \<open>Processing\<close> under
  a new lock, so the good rows of the batch wait for that lock to expire.
\<close>
theorem undecodable_row_fails_claimed_batch:
  fixes s :: "('j, 'x) pg_state_scheme"
  assumes ok: "pg_ok s" and nofault: "fault (next_env s) = None"
    and r: "r \<in> set (outbox_events s)" "eid r \<in> set (sql_select_next (unat l) (next_env s) (advance s))"
    and bad: "from_value c (as_value (payload r)) = Inl m"
    and run: "pg_fetch_next_to_process c cfg l s = (q, t)"
  shows "(\<exists>m'. q = Inl (DatabaseError m')) \<and>
    (\<forall>x \<in> set (outbox_events s).
       eid x \<in> set (sql_select_next (unat l) (next_env s) (advance s)) \<longrightarrow>
       claim_row (pg_now (advance s) + minute * sint (lock_timeout_mins cfg)) x \<in> set (outbox_events t))"
proof -
  have dist: "distinct (map eid (outbox_events (advance s)))" using ok by (simp add: pg_ok_def)
  obtain w u where claim:
    "sql_claim (unat l) (sint (lock_timeout_mins cfg)) (next_env s) (advance s) = (w, u)" by fastforce
  define until where "until = pg_now (advance s) + minute * sint (lock_timeout_mins cfg)"
  obtain rows ids where w: "w = Inr rows" and ids: "ids = sql_select_next (unat l) (next_env s) (advance s)"
    and rows: "set rows = claim_row until ` {x \<in> set (outbox_events s). eid x \<in> set ids}"
    and u: "u = (advance s)\<lparr> outbox_events := map (\<lambda>r. if eid r \<in> set ids then claim_row until r else r)
      (outbox_events s) \<rparr>"
    by (rule sql_claim_result[OF pg_ok_next_fair[OF ok] dist claim, folded until_def, unfolded advance_simps])
      simp
  have "claim_row until r \<in> set rows" using rows r ids by blast
  moreover have "decode_row (from_value c) (claim_row until r) = Inl m"
    using bad by (simp add: decode_row_def)
  ultimately obtain m' where "decode_rows (from_value c) rows = Inl m'"
    using decode_rows_error[of "from_value c" rows] by blast
  with run claim w nofault have "q = Inl (DatabaseError m')" "t = u"
    by (simp_all add: pg_fetch_next_to_process_def database_error_def and_then_def run_stmt_def)
  then show ?thesis unfolding u ids until_def by (auto simp: image_iff)
qed

theorem undecodable_row_fails_claimed_batch_witness:
  "\<exists>m t. pg_fetch_next_to_process sample_client in_memory_config 5
      (world_with [row 1 Pending 0, (row 2 Pending 0)\<lparr> payload := Payload [] \<rparr>]) = (Inl (DatabaseError m), t) \<and>
    claim_row 660000000 (row 1 Pending 0) \<in> set (outbox_events t)"
proof -
  let ?bad = "(row 2 Pending 0)\<lparr> payload := Payload [] \<rparr>"
  let ?s = "world_with [row 1 Pending 0, ?bad]"
  obtain q t where run: "pg_fetch_next_to_process sample_client in_memory_config 5 ?s = (q, t)" by fastforce
  have picked: "sql_select_next (unat (5::u32)) (next_env ?s) (advance ?s) = [EventId 1, EventId 2]"
    by (simp add: pg_run sample_run)
  have "pg_ok ?s" by (simp add: row_def)
  moreover have "fault (next_env ?s) = None" "?bad \<in> set (outbox_events ?s)"
    by (simp_all add: next_env_def quiet_env_def world_with_def)
  moreover have "from_value sample_client (as_value (payload ?bad)) = Inl ''missing field''"
    by (simp add: sample_client_def)
  ultimately have "(\<exists>m'. q = Inl (DatabaseError m')) \<and> (\<forall>x \<in> set (outbox_events ?s).
       eid x \<in> set [EventId 1, EventId 2] \<longrightarrow>
       claim_row (pg_now (advance ?s) + minute * sint (lock_timeout_mins in_memory_config)) x
         \<in> set (outbox_events t))"
    using undecodable_row_fails_claimed_batch[OF _ _ _ _ _ run, of ?bad] picked
    by (simp add: row_def)
  moreover have "pg_now (advance ?s) + minute * sint (lock_timeout_mins in_memory_config) = 660000000"
    by (simp add: sample_run advance_def next_env_def quiet_env_def)
  moreover have "row 1 Pending 0 \<in> set (outbox_events ?s)" "eid (row 1 Pending 0) = EventId 1"
    by (simp_all add: sample_run)
  ultimately obtain m' where "q = Inl (DatabaseError m')"
    and "claim_row 660000000 (row 1 Pending 0) \<in> set (outbox_events t)" by auto
  with run show ?thesis by (intro exI[of _ m'] exI[of _ t]) simp
qed

section \<open>Waiting for notifications\<close>

text \<open>
  The listener slot after a wait tells how it ended: it holds a listener after a success, it is
  empty after every failure (so that the next wait connects afresh), and a wait that fails
  to connect or to subscribe never fills it. A wait does not touch the tables.
\<close>
theorem listener_dropped_on_error:
  fixes s :: "('j, 'x) pg_state_scheme"
  shows "case pg_wait_for_notification chn s of
      (Inr _, t) \<Rightarrow> listener t = (case listener s of None \<Rightarrow> Some chn | Some x \<Rightarrow> Some x) \<and>
        outbox_events t = outbox_events s
    | (Inl e, t) \<Rightarrow> (\<exists>m. e = DatabaseError m) \<and> listener t = None \<and> outbox_events t = outbox_events s"
  by (auto simp: pg_wait_for_notification_def Let_def split: option.splits prod.splits sum.splits list.splits)



end
