(* ===== verification/Intake_Properties.thy ===== *)
theory Intake_Properties
  imports Samples
begin

text \<open>
  The producer side: \<open>add_event\<close> with its strategies and its reservation, alone (any writer, any
  provider) and over the Redis provider and the PostgreSQL writer.
\<close>

section \<open>Shared facts\<close>

text \<open>An insert does not touch the keyspace or the cache; a reservation does not touch the tables.\<close>

definition same_redis :: "('p, 'j) world \<Rightarrow> ('p, 'j) world \<Rightarrow> bool" where
  "same_redis s t \<longleftrightarrow> redis_now t = redis_now s \<and> redis_strings t = redis_strings s \<and>
     redis_zsets t = redis_zsets s \<and> cached_keys t = cached_keys s \<and> redis_script t = redis_script s"

lemma insert_keeps_redis:
  fixes s :: "('p, 'j) world"
  assumes "pg_insert_event c e s = (r, t)"
  shows "same_redis s t"
  using assms
  by (auto simp: same_redis_def pg_insert_event_def database_error_def run_stmt_def sql_insert_def
      advance_def split: option.splits pg_fault.splits prod.splits sum.splits if_splits)

lemma reserve_keeps_tables:
  assumes "redis_try_reserve (world_provider moka rcfg) tok s = (r, t)"
  shows "outbox_events t = outbox_events s"
proof (cases "moka \<and> cached (token_as_str tok) s")
  case True
  with assms show ?thesis by (auto simp: redis_try_reserve_def world_cache_def)
next
  case False
  obtain q u where
    c: "world_set_nx_ex (key_prefix rcfg @ '':'' @ token_as_str tok) ''1'' (as_secs (ttl rcfg)) s = (q, u)"
    by fastforce
  have "outbox_events u = outbox_events s" by (rule redis_frame_views(9)[OF redis_call_frames(1)[OF c]])
  with assms False show ?thesis
    unfolding redis_try_reserve_def Let_def token_key_def world_service_provider world_conn_simps c
    by (auto simp: world_cache_def split: sum.splits if_splits option.splits)
qed

abbreviation reserved_tokens :: "bool \<Rightarrow> redis_token_config \<Rightarrow> ('p, 'j) world \<Rightarrow> idempotency_token set" where
  "reserved_tokens moka rcfg \<equiv> redis_reserved (world_provider moka rcfg) world_str world_zset"

text \<open>The service of the deduplication set-up.\<close>

definition redis_service_with :: "('p, 'j) pg_client \<Rightarrow> 'p outbox_config \<Rightarrow> bool \<Rightarrow> redis_token_config \<Rightarrow>
    (('p, 'j) world, 'p) outbox_service" where
  "redis_service_with c cfg moka rcfg =
     OutboxService_with_idempotency (PostgresWriter c) cfg (RedisProvider_tokens (world_provider moka rcfg))"

lemma redis_add_event:
  assumes "idempotency_strategy cfg = Provided"
    and "redis_try_reserve (world_provider moka rcfg) (IdempotencyToken k) s = (r, u)"
  shows "add_event (redis_service_with c cfg moka rcfg) h ty p (Some k) g s =
    (case r of
       Inl e \<Rightarrow> (Return (Inl e), u)
     | Inr granted \<Rightarrow>
         if granted
         then (case pg_insert_event c (new_event h ty p (Some (IdempotencyToken k))) u of
                 (w, v) \<Rightarrow> (Return w, v))
         else (Return (Inl DuplicateEvent), u))"
  using assms
  by (auto simp: add_event_simps redis_service_with_def OutboxService_with_idempotency_def
      IdempotencyToken_new_def split: sum.splits prod.splits)

lemma redis_reserve_error:
  "redis_try_reserve rp tok s = (Inl e, t) \<Longrightarrow> \<exists>m. e = InfrastructureError m"
  by (auto simp: redis_try_reserve_def Let_def split: if_splits sum.splits prod.splits)

text \<open>
  A token that was granted is in the keyspace, and in the cache when there is one, with its time to
  live; the keyspace counts it in whole seconds.
\<close>

definition held_until :: "redis_token_config \<Rightarrow> string \<Rightarrow> ('p, 'j) world \<Rightarrow> bool" where
  "held_until rcfg k s \<longleftrightarrow>
     map_of (redis_strings s) (key_prefix rcfg @ '':'' @ k) =
       Some (''1'', redis_now s + as_secs (ttl rcfg) * nanos_per_sec) \<and>
     zset_list s (key_prefix rcfg @ '':'' @ k) = [] \<and> 0 < as_secs (ttl rcfg)"

definition cached_until :: "bool \<Rightarrow> redis_token_config \<Rightarrow> string \<Rightarrow> ('p, 'j) world \<Rightarrow> bool" where
  "cached_until moka rcfg k s \<longleftrightarrow>
     (moka \<longrightarrow> map_of (cached_keys s) k = Some (Some (redis_now s + ttl rcfg)))"

lemma set_granted:
  assumes "world_set_nx_ex k v n s = (Inr (Some x), t)"
  shows "map_of (redis_strings t) k = Some (v, redis_now t + n * nanos_per_sec) \<and> zset_list t k = [] \<and> 0 < n"
  using assms[unfolded world_set_nx_ex_def]
  by (rule redis_cmd_ok) (auto simp: zset_list_def split: if_splits)

lemma reserve_holds:
  assumes "redis_try_reserve (world_provider moka rcfg) (IdempotencyToken k) s = (Inr True, t)"
  shows "held_until rcfg k t \<and> cached_until moka rcfg k t"
proof -
  let ?k = "key_prefix rcfg @ '':'' @ k"
  from assms obtain x u where
    set: "world_set_nx_ex ?k ''1'' (as_secs (ttl rcfg)) s = (Inr (Some x), u)"
    and t: "t = (if moka then u\<lparr> cached_keys := (k, Some (redis_now u + ttl rcfg)) # cached_keys u \<rparr> else u)"
    by (auto simp: redis_try_reserve_def token_key_def Let_def world_cache_def
        split: if_splits sum.splits prod.splits option.splits)
  from set_granted[OF set] t show ?thesis
    by (simp add: held_until_def cached_until_def zset_list_def)
qed

lemma held_same_redis:
  "same_redis s t \<Longrightarrow> held_until rcfg k t = held_until rcfg k s \<and> cached_until moka rcfg k t = cached_until moka rcfg k s"
  by (simp add: same_redis_def held_until_def cached_until_def zset_list_def)

lemma first_call_takes:
  assumes strat: "idempotency_strategy cfg = Provided"
    and run: "add_event (redis_service_with c cfg moka rcfg) h ty p (Some k) g s = (Return q, t)"
    and "q = Inr () \<or> q = Inl (DatabaseError m)"
  shows "held_until rcfg k t \<and> cached_until moka rcfg k t"
proof -
  obtain r u where r: "redis_try_reserve (world_provider moka rcfg) (IdempotencyToken k) s = (r, u)"
    by fastforce
  have "r = Inr True"
    using run[unfolded redis_add_event[OF strat r]] r assms(3)
    by (cases r) (auto dest!: redis_reserve_error split: if_splits)
  then obtain w where "pg_insert_event c (new_event h ty p (Some (IdempotencyToken k))) u = (w, t)"
    using run[unfolded redis_add_event[OF strat r]] by (auto split: prod.splits)
  from held_same_redis[OF insert_keeps_redis[OF this]] reserve_holds r \<open>r = Inr True\<close> show ?thesis by blast
qed

text \<open>
  Between two calls of the intake with one token, \<open>d\<close> nanoseconds pass, in which the token's key and
  cache entry are left alone; the other keys, the database, the broker and everything else may be in
  any state by then.
\<close>

definition elapsed :: "redis_token_config \<Rightarrow> string \<Rightarrow> nat \<Rightarrow> ('p, 'j) world \<Rightarrow> ('p, 'j) world \<Rightarrow> bool" where
  "elapsed rcfg k d s t \<longleftrightarrow> redis_now t = redis_now s + d \<and>
     map_of (redis_strings t) (key_prefix rcfg @ '':'' @ k) =
       map_of (redis_strings s) (key_prefix rcfg @ '':'' @ k) \<and>
     zset_list t (key_prefix rcfg @ '':'' @ k) = zset_list s (key_prefix rcfg @ '':'' @ k) \<and>
     map_of (cached_keys t) k = map_of (cached_keys s) k"

lemma taken_then_rejected:
  assumes strat: "idempotency_strategy cfg = Provided" and held: "held_until rcfg k s"
    and d: "elapsed rcfg k d s s'" "d < as_secs (ttl rcfg) * nanos_per_sec"
    and run: "add_event (redis_service_with c cfg moka rcfg) h ty p (Some k) g s' = (q, t)"
  shows "(q = Return (Inl DuplicateEvent) \<or> (\<exists>m. q = Return (Inl (InfrastructureError m)))) \<and>
    outbox_events t = outbox_events s'"
proof -
  obtain r u where r: "redis_try_reserve (world_provider moka rcfg) (IdempotencyToken k) s' = (r, u)"
    by fastforce
  have "world_str s' (key_prefix rcfg @ '':'' @ k) \<noteq> None"
    using held d by (simp add: held_until_def elapsed_def world_str_def str_lookup_def)
  then have "IdempotencyToken k \<in> reserved_tokens moka rcfg s'"
    by (simp add: redis_reserved_def token_key_def)
  then have "r \<noteq> Inr True" using tokens.granted_free r by blast
  then show ?thesis
    using run[unfolded redis_add_event[OF strat r]] reserve_keeps_tables[OF r] r
    by (cases r) (auto dest!: redis_reserve_error)
qed

section \<open>Deduplication\<close>

text \<open>
  C13. Effectively-once intake: after \<open>add_event\<close> has succeeded with a provided token, another call
  with the same token within its time to live (in whole seconds) never stores anything, whatever has
  become of the database meanwhile. It returns \<open>DuplicateEvent\<close>, or the error of a Redis command
  that failed.
\<close>
theorem second_request_rejected:
  fixes s :: "('p, 'j) world"
  assumes "idempotency_strategy cfg = Provided"
    and "add_event (redis_service_with c cfg moka rcfg) h ty p (Some k) g s = (Return (Inr ()), t)"
    and "elapsed rcfg k d t t'" and "d < as_secs (ttl rcfg) * nanos_per_sec"
    and "add_event (redis_service_with c cfg moka rcfg) h' ty' p' (Some k) g' t' = (q, u)"
  shows "(q = Return (Inl DuplicateEvent) \<or> (\<exists>m. q = Return (Inl (InfrastructureError m)))) \<and>
    outbox_events u = outbox_events t'"
  using taken_then_rejected[OF assms(1) _ assms(3-5)] first_call_takes[OF assms(1,2)] by blast

lemma elapse_elapsed: "elapsed rcfg k d t (elapse d t)"
  by (simp add: elapsed_def elapse_def zset_list_def)

lemma elapse_tables [simp]:
  "outbox_events (elapse d t) = outbox_events t" "redis_script (elapse d t) = redis_script t"
  by (simp_all add: elapse_def)

theorem second_request_rejected_witness:
  "\<exists>t q u. add_event (redis_service_with sample_client deduplication_config True sample_redis) sample_host
      ''a'' (HiOutbox ''x'') (Some ''k'') no_event (world_with []) = (Return (Inr ()), t) \<and>
    add_event (redis_service_with sample_client deduplication_config True sample_redis) sample_host
      ''b'' (HiOutbox ''y'') (Some ''k'') no_event (elapse 59000000000 t) = (q, u) \<and>
    length (outbox_events t) = 1 \<and> outbox_events u = outbox_events t"
proof -
  let ?sv = "redis_service_with sample_client deduplication_config True sample_redis"
  obtain t where first: "add_event ?sv sample_host ''a'' (HiOutbox ''x'') (Some ''k'') no_event (world_with []) =
      (Return (Inr ()), t)" and len: "length (outbox_events t) = 1"
    by (simp add: redis_service_with_def intake_run redis_run pg_run sample_run)
  obtain q u where second: "add_event ?sv sample_host ''b'' (HiOutbox ''y'') (Some ''k'') no_event
      (elapse 59000000000 t) = (q, u)"
    by fastforce
  have "idempotency_strategy deduplication_config = Provided"
    and "59000000000 < as_secs (ttl sample_redis) * nanos_per_sec"
    by (simp_all add: deduplication_config_def sample_redis_def as_secs_def nanos_per_sec_def)
  from second_request_rejected[OF this(1) first elapse_elapsed this(2) second] first second len
  show ?thesis by (intro exI[of _ t] exI[of _ q] exI[of _ u] conjI) simp_all
qed

text \<open>
  C14. The reservation is not given back when the insert fails: until the token expires, a retry with
  it after a database error is rejected as a duplicate, and although the caller was told of a failure
  to be retried, nothing is stored by the retry.
\<close>
theorem retry_after_failed_insert_rejected:
  fixes s :: "('p, 'j) world"
  assumes "idempotency_strategy cfg = Provided"
    and "add_event (redis_service_with c cfg moka rcfg) h ty p (Some k) g s =
      (Return (Inl (DatabaseError m)), t)"
    and "elapsed rcfg k d t t'" and "d < as_secs (ttl rcfg) * nanos_per_sec"
    and "add_event (redis_service_with c cfg moka rcfg) h' ty' p' (Some k) g' t' = (q, u)"
  shows "(q = Return (Inl DuplicateEvent) \<or> (\<exists>m. q = Return (Inl (InfrastructureError m)))) \<and>
    outbox_events u = outbox_events t'"
  using taken_then_rejected[OF assms(1) _ assms(3-5)] first_call_takes[OF assms(1,2)] by blast

theorem retry_after_failed_insert_rejected_witness:
  "\<exists>m t q u. add_event (redis_service_with sample_client deduplication_config True sample_redis) sample_host
      ''a'' (HiOutbox ''x'') (Some ''k'') no_event
      ((world_with [])\<lparr> pg_script := [quiet_env\<lparr> fault := Some (Refused ''down'') \<rparr>] \<rparr>) =
        (Return (Inl (DatabaseError m)), t) \<and>
    add_event (redis_service_with sample_client deduplication_config True sample_redis) sample_host
      ''a'' (HiOutbox ''x'') (Some ''k'') no_event (elapse 1000 t) = (q, u) \<and>
    outbox_events u = [] \<and> q \<noteq> Return (Inr ())"
proof -
  let ?sv = "redis_service_with sample_client deduplication_config True sample_redis"
  let ?s = "(world_with [])\<lparr> pg_script := [quiet_env\<lparr> fault := Some (Refused ''down'') \<rparr>] \<rparr>"
  obtain m t where first: "add_event ?sv sample_host ''a'' (HiOutbox ''x'') (Some ''k'') no_event ?s =
      (Return (Inl (DatabaseError m)), t)" and len: "outbox_events t = []"
    by (simp add: redis_service_with_def intake_run redis_run pg_run sample_run)
  obtain q u where second: "add_event ?sv sample_host ''a'' (HiOutbox ''x'') (Some ''k'') no_event
      (elapse 1000 t) = (q, u)"
    by fastforce
  have "idempotency_strategy deduplication_config = Provided"
    and "1000 < as_secs (ttl sample_redis) * nanos_per_sec"
    by (simp_all add: deduplication_config_def sample_redis_def as_secs_def nanos_per_sec_def)
  from retry_after_failed_insert_rejected[OF this(1) first elapse_elapsed this(2) second] first second len
  show ?thesis
    by (intro exI[of _ m] exI[of _ t] exI[of _ q] exI[of _ u] conjI) auto
qed

lemma expired_then_granted:
  assumes held: "held_until rcfg k s" "cached_until moka rcfg k s"
    and d: "elapsed rcfg k d s s'" "ttl rcfg \<le> d" and "redis_script s' = []"
  obtains t where "redis_try_reserve (world_provider moka rcfg) (IdempotencyToken k) s' = (Inr True, t)"
    and "outbox_events t = outbox_events s'" and "pg_script t = pg_script s'"
proof -
  let ?k = "key_prefix rcfg @ '':'' @ k"
  have "as_secs (ttl rcfg) * nanos_per_sec \<le> d"
    using d(2) div_times_less_eq_dividend[of "ttl rcfg" nanos_per_sec]
    unfolding as_secs_def by linarith
  then have free: "world_str s' ?k = None" "zset_list s' ?k = []"
    using held(1) d(1) by (simp_all add: held_until_def elapsed_def world_str_def str_lookup_def)
  have uncached: "\<not> (moka \<and> cached k s')"
    using held(2) d by (auto simp: cached_until_def elapsed_def cached_def cache_lookup_def)
  define u where "u = s'\<lparr> redis_strings :=
    (?k, ''1'', redis_now s' + as_secs (ttl rcfg) * nanos_per_sec) # redis_strings s' \<rparr>"
  have same: "s'\<lparr> redis_script := [] \<rparr> = s'" using assms(5) by (cases s') simp
  have "world_set_nx_ex ?k ''1'' (as_secs (ttl rcfg)) s' = (Inr (Some ''OK''), u)"
    using free held(1) assms(5)
    by (simp add: world_set_nx_ex_def redis_cmd_def u_def held_until_def same Let_def)
  then have "redis_try_reserve (world_provider moka rcfg) (IdempotencyToken k) s' =
      (Inr True, if moka then u\<lparr> cached_keys := (k, Some (redis_now u + ttl rcfg)) # cached_keys u \<rparr> else u)"
    using uncached by (auto simp: redis_try_reserve_def token_key_def world_cache_def)
  from that[OF this] show thesis by (simp add: u_def split: if_splits)
qed

lemma insert_taken_token:
  assumes "Some tok \<in> idempotency_token ` set (outbox_events s)" and "idempotency_token e = Some tok"
    and "pg_insert_event c e s = (r, t)"
  shows "(\<exists>m. r = Inl (DatabaseError m)) \<and> outbox_events t = outbox_events s"
  using assms
  by (auto simp: pg_insert_event_def database_error_def run_stmt_def sql_insert_def with_payload_def
      split: option.splits pg_fault.splits prod.splits sum.splits if_splits)

lemma insert_quiet:
  assumes "pg_script s = []" and "to_value c (as_value (payload e)) = Inr j"
    and "eid e \<notin> eid ` set (outbox_events s)"
    and "idempotency_token e \<notin> idempotency_token ` set (outbox_events s)"
    and "pg_insert_event c e s = (r, t)"
  shows "r = Inr () \<and> outbox_events t = outbox_events s @ [with_payload (Payload j) e]"
  using assms
  by (auto simp: pg_insert_event_def database_error_def run_stmt_def sql_insert_def with_payload_def
      next_env_def quiet_env_def)

text \<open>
  C15. The window of the deduplication is the time to live. Once it has passed and Redis answers, the
  token is granted again and the table decides: while a row with the token is still active its unique
  index refuses the insert, and the duplicate is reported as a \<open>DatabaseError\<close>; when the row is gone
  and the database is well, the event is stored a second time.
\<close>
theorem table_decides_after_ttl:
  fixes s :: "('p, 'j) world"
  assumes strat: "idempotency_strategy cfg = Provided"
    and first: "add_event (redis_service_with c cfg moka rcfg) h ty p (Some k) g s = (Return (Inr ()), t)"
    and later: "elapsed rcfg k d t t'" "ttl rcfg \<le> d" and answers: "redis_script t' = []"
    and run: "add_event (redis_service_with c cfg moka rcfg) h' ty' p' (Some k) g' t' = (q, u)"
  shows "if Some (IdempotencyToken k) \<in> idempotency_token ` set (outbox_events t')
    then (\<exists>m. q = Return (Inl (DatabaseError m))) \<and> outbox_events u = outbox_events t'
    else \<forall>j. to_value c p' = Inr j \<longrightarrow> pg_script t' = [] \<longrightarrow>
      EventId (new_v4 h') \<notin> eid ` set (outbox_events t') \<longrightarrow>
      q = Return (Inr ()) \<and> outbox_events u = outbox_events t' @
        [with_payload (Payload j) (new_event h' ty' p' (Some (IdempotencyToken k)))]"
proof -
  let ?e = "new_event h' ty' p' (Some (IdempotencyToken k))"
  have e: "idempotency_token ?e = Some (IdempotencyToken k)" "eid ?e = EventId (new_v4 h')"
    "as_value (payload ?e) = p'"
    by (simp_all add: new_event_def Event_new_def EventId_default_def Payload_new_def)
  from first_call_takes[OF strat first] have "held_until rcfg k t" "cached_until moka rcfg k t" by simp_all
  from expired_then_granted[OF this later answers] obtain v where
    v: "redis_try_reserve (world_provider moka rcfg) (IdempotencyToken k) t' = (Inr True, v)"
    and same: "outbox_events v = outbox_events t'" "pg_script v = pg_script t'" .
  obtain w x where ins: "pg_insert_event c ?e v = (w, x)" by fastforce
  with run[unfolded redis_add_event[OF strat v]] have "q = Return w" "u = x" by simp_all
  then show ?thesis
    using insert_taken_token[OF _ e(1) ins] insert_quiet[OF _ _ _ _ ins] by (simp add: same e)
qed

theorem table_decides_after_ttl_witness:
  "\<exists>t q u v. add_event (redis_service_with sample_client deduplication_config True sample_redis) sample_host
      ''a'' (HiOutbox ''x'') (Some ''k'') no_event (world_with []) = (Return (Inr ()), t) \<and>
    add_event (redis_service_with sample_client deduplication_config True sample_redis) sample_host
      ''a'' (HiOutbox ''x'') (Some ''k'') no_event (elapse 60000000000 t) = (q, u) \<and>
    (\<exists>m. q = Return (Inl (DatabaseError m))) \<and> length (outbox_events u) = 1 \<and>
    add_event (redis_service_with sample_client deduplication_config True sample_redis) sample_host
      ''a'' (HiOutbox ''x'') (Some ''k'') no_event ((elapse 60000000000 t)\<lparr> outbox_events := [] \<rparr>) =
        (Return (Inr ()), v)"
proof -
  let ?sv = "redis_service_with sample_client deduplication_config True sample_redis"
  obtain t where first: "add_event ?sv sample_host ''a'' (HiOutbox ''x'') (Some ''k'') no_event (world_with []) =
      (Return (Inr ()), t)" and len: "length (outbox_events t) = 1"
    and tok: "map idempotency_token (outbox_events t) = [Some (IdempotencyToken ''k'')]"
    and quiet: "redis_script t = []" "pg_script t = []"
    by (simp add: redis_service_with_def intake_run redis_run pg_run sample_run)
  let ?t = "elapse 60000000000 t"
  let ?gone = "?t\<lparr> outbox_events := [] \<rparr>"
  have strat: "idempotency_strategy deduplication_config = Provided" by (simp add: deduplication_config_def)
  have ttl: "ttl sample_redis \<le> 60000000000" by (simp add: sample_redis_def nanos_per_sec_def)
  have gone: "elapsed sample_redis ''k'' 60000000000 t ?gone"
    by (simp add: elapsed_def elapse_def zset_list_def)
  obtain q u where second: "add_event ?sv sample_host ''a'' (HiOutbox ''x'') (Some ''k'') no_event ?t = (q, u)"
    by fastforce
  obtain q' v where third: "add_event ?sv sample_host ''a'' (HiOutbox ''x'') (Some ''k'') no_event ?gone = (q', v)"
    by fastforce
  have active: "Some (IdempotencyToken ''k'') \<in> idempotency_token ` set (outbox_events ?t)"
    using tok by (auto simp: map_eq_Cons_conv)
  have "q' = Return (Inr ())"
    using table_decides_after_ttl[OF strat first gone ttl _ third] quiet
    by (simp add: sample_client_def elapse_def)
  moreover have "(\<exists>m. q = Return (Inl (DatabaseError m))) \<and> outbox_events u = outbox_events ?t"
    using table_decides_after_ttl[OF strat first elapse_elapsed ttl _ second] active quiet by simp
  ultimately show ?thesis
    using first second third len
    by (intro exI[of _ t] exI[of _ q] exI[of _ u] exI[of _ v]) simp
qed

text \<open>
  C34. The token \<open>dlq\<close> shares its Redis key with the dead-letter heap of the same provider: once it
  is reserved, every \<open>record_failure\<close> fails.
\<close>
theorem dlq_token_disables_heap:
  fixes s :: "('p, 'j) world"
  assumes "redis_try_reserve (world_provider moka rcfg) (IdempotencyToken DLQ_KEY_SUFFIX) s = (Inr True, t)"
    and "redis_record_failure world_text (world_provider moka rcfg) i t = (r, u)"
  shows "\<exists>m. r = Inl (InfrastructureError m)"
  using assms by (rule tokens.dlq_token_blocks_heap)

theorem dlq_token_disables_heap_witness:
  "\<exists>t r u. redis_try_reserve (world_provider True sample_redis) (IdempotencyToken ''dlq'') (world_with []) =
      (Inr True, t) \<and>
    redis_record_failure world_text (world_provider True sample_redis) (EventId 1) t = (r, u) \<and>
    (\<exists>m. r = Inl (InfrastructureError m))"
proof -
  obtain t where res: "redis_try_reserve (world_provider True sample_redis) (IdempotencyToken DLQ_KEY_SUFFIX)
      (world_with []) = (Inr True, t)" by (simp add: redis_run sample_run)
  obtain r u where "redis_record_failure world_text (world_provider True sample_redis) (EventId 1) t = (r, u)"
    by fastforce
  with dlq_token_disables_heap[OF res this] res show ?thesis
    by (intro exI[of _ t] exI[of _ r] exI[of _ u] conjI) (simp_all add: DLQ_KEY_SUFFIX_def)
qed

text \<open>
  C35. With a time to live below one second nothing can be reserved at all: the \<open>EX\<close> argument is cut
  to whole seconds and the server refuses zero, so no event with a token is ever stored.
\<close>
theorem sub_second_ttl_reserves_nothing:
  fixes s :: "('p, 'j) world"
  assumes "ttl rcfg < nanos_per_sec" and "idempotency_strategy cfg = Provided"
    and "add_event (redis_service_with c cfg moka rcfg) h ty p (Some k) g s = (q, t)"
  shows "q \<noteq> Return (Inr ()) \<and> outbox_events t = outbox_events s"
proof -
  obtain r u where r: "redis_try_reserve (world_provider moka rcfg) (IdempotencyToken k) s = (r, u)"
    by fastforce
  have "r \<noteq> Inr True" using tokens.sub_second_never_grants[OF _ r] assms(1) by simp
  with assms(3)[unfolded redis_add_event[OF assms(2) r]] reserve_keeps_tables[OF r]
  show ?thesis by (auto split: sum.splits if_splits)
qed

theorem sub_second_ttl_reserves_nothing_witness:
  "\<exists>q t. add_event (redis_service_with sample_client deduplication_config False
      (sample_redis\<lparr> ttl := 500000000 \<rparr>)) sample_host ''a'' (HiOutbox ''x'') (Some ''k'') no_event
      (world_with []) = (q, t) \<and> q \<noteq> Return (Inr ()) \<and> outbox_events t = []"
proof -
  let ?cfg = "sample_redis\<lparr> ttl := 500000000 \<rparr>"
  obtain q t where run: "add_event (redis_service_with sample_client deduplication_config False ?cfg)
      sample_host ''a'' (HiOutbox ''x'') (Some ''k'') no_event (world_with []) = (q, t)" by fastforce
  have "ttl ?cfg < nanos_per_sec" "idempotency_strategy deduplication_config = Provided"
    by (simp_all add: nanos_per_sec_def deduplication_config_def)
  from sub_second_ttl_reserves_nothing[OF this run] run show ?thesis
    by (intro exI[of _ q] exI[of _ t] conjI) (simp_all add: world_with_def)
qed

section \<open>Strategies\<close>

text \<open>
  \<open>add_event\<close> panics exactly when the strategy is \<open>Custom\<close> and \<open>get_event\<close> gives no event.
\<close>
theorem add_event_panics_iff:
  "(\<exists>m. fst (add_event sv h ty p tok g s) = Panic m) \<longleftrightarrow>
     is_custom (idempotency_strategy (sv_config sv)) \<and> fst (g s) = None"
proof -
  have "(\<exists>m. fst (add_event sv h ty p tok g s) = Panic m) \<longleftrightarrow>
      (\<exists>m t. invoke (idempotency_strategy (sv_config sv)) h tok g s = (Panic m, t))"
    by (auto simp: add_event_def Let_def split: prod.splits exec.splits)
  then show ?thesis by (simp add: invoke_panics_iff)
qed

lemma no_token_add_event:
  assumes "idempotency_strategy (sv_config sv) = NoToken"
  shows "add_event sv h ty p tok g s =
    (case insert_event (sv_writer sv) (Event_new (new_v4 h) (now_utc h) (EventType ty) (Payload p) None) s of
       (r, t) \<Rightarrow> (Return r, t))"
  using assms
  by (simp add: add_event_def and_then_def new_event_def EventType_new_def Payload_new_def
      split: prod.splits)

text \<open>
  Intake fails closed: an error of the provider is the result of the call, and the writer has
  not been asked.
\<close>
theorem provider_error_stops_intake:
  assumes "sv_idempotency_storage sv = Some ip"
    and "invoke (idempotency_strategy (sv_config sv)) h tok g s = (Return (Some k), t)"
    and "try_reserve ip (IdempotencyToken k) t = (Inl e, u)"
  shows "add_event sv h ty p tok g s = (Return (Inl e), u)"
  using assms by (simp add: add_event_simps IdempotencyToken_new_def)

theorem provider_error_stops_intake_witness:
  "\<exists>u. add_event (redis_service_with sample_client deduplication_config True sample_redis) sample_host
      ''a'' (HiOutbox ''x'') (Some ''k'') no_event ((world_with [])\<lparr> redis_script := [Some (False, ''down'')] \<rparr>) =
        (Return (Inl (InfrastructureError ''down'')), u) \<and> outbox_events u = []"
proof -
  let ?s = "(world_with [])\<lparr> redis_script := [Some (False, ''down'')] \<rparr>"
  let ?sv = "redis_service_with sample_client deduplication_config True sample_redis"
  obtain u where u: "try_reserve (RedisProvider_tokens (world_provider True sample_redis)) (IdempotencyToken ''k'') ?s =
      (Inl (InfrastructureError ''down''), u)" and none: "outbox_events u = []"
    by (simp add: redis_run sample_run)
  have "sv_idempotency_storage ?sv = Some (RedisProvider_tokens (world_provider True sample_redis))"
    and "invoke (idempotency_strategy (sv_config ?sv)) sample_host (Some ''k'') no_event ?s = (Return (Some ''k''), ?s)"
    by (simp_all add: redis_service_with_def OutboxService_with_idempotency_def deduplication_config_def)
  from provider_error_stops_intake[OF this u, of "''a''" "HiOutbox ''x''"] none show ?thesis
    by (intro exI[of _ u] conjI)
qed

end
