(* ===== verification/Delivery_Properties.thy ===== *)
theory Delivery_Properties
  imports Samples
begin

text \<open>
  The worker over PostgreSQL, a channel transport (well-behaved or flaky) and, with the \<open>dlq\<close>
  feature, the Redis heap: what a batch does, what a failing heap does to it, when a drain ends, and
  how the long-running loops stop.
\<close>

section \<open>Shared facts\<close>

abbreviation worker_of :: "('p, 'j) pg_client \<Rightarrow> 'p outbox_config \<Rightarrow> 'p broker \<Rightarrow>
    (('p, 'j) world, 'p) outbox_processor" where
  "worker_of c cfg b \<equiv> OutboxProcessor_new (PostgresOutbox c cfg) (world_publisher b) cfg"

lemmas batch_run = process_pending_events_def event_publish_def tokio_publish_def
  flaky_publish_def world_tx_def world_heap_def world_recorder_def pg_status_def row_status_def

text \<open>The ids that are due and those that are refused, as lists.\<close>

lemma pg_due_run: "pg_due s = set (map eid (filter (claimable (pg_now s)) (outbox_events s)))"
  by (simp add: pg_due_def)

lemma pg_refused_run:
  "pg_refused c bad s = set (map eid (filter (\<lambda>r. case decode_row (from_value c) r of
     Inl _ \<Rightarrow> False | Inr e \<Rightarrow> bad e) (outbox_events s)))"
proof -
  have "(case x of Inl _ \<Rightarrow> False | Inr e \<Rightarrow> bad e) \<longleftrightarrow> (\<exists>e. x = Inr e \<and> bad e)" for x :: "string + 'a event"
    by (cases x) simp_all
  then show ?thesis by (simp add: pg_refused_def)
qed

section \<open>One batch\<close>



text \<open>
  C11. Whatever fails in a batch, no row moves back down its lifecycle and none disappears.
\<close>
theorem batch_never_moves_back:
  fixes s :: "('p, 'j) world"
  assumes "pg_ok s"
    and "process_pending_events (worker_of c cfg b) (world_heap dlq moka rcfg) (world_recorder met) s =
      (r, t)"
    and "pg_status s i = Some x"
  shows "\<exists>y. pg_status t i = Some y \<and> x \<le> y"
  using assms by (rule worker.batch_forward)

theorem batch_never_moves_back_witness:
  "\<exists>t y. snd (process_pending_events (worker_of sample_client in_memory_config Tokio_channel) None None
      (world_with [row 1 Pending 0])) = t \<and> pg_status t (EventId 1) = Some y \<and> Pending \<le> y"
proof -
  let ?s = "world_with [row 1 Pending 0]"
  obtain r t where run: "process_pending_events (worker_of sample_client in_memory_config Tokio_channel)
      (world_heap False True sample_redis) (world_recorder False) ?s = (r, t)" by fastforce
  have "pg_ok ?s" by simp
  moreover have "pg_status ?s (EventId 1) = Some Pending"
    by (simp add: pg_status_def row_status_def sample_run)
  ultimately have "\<exists>y. pg_status t (EventId 1) = Some y \<and> Pending \<le> y"
    using batch_never_moves_back[OF _ run] by blast
  with run show ?thesis by (auto simp: world_heap_def world_recorder_def)
qed

text \<open>
  C25. An error of the dead-letter heap aborts the batch before anything is marked: \<open>process_pending_events\<close>
  returns it, and no row has become \<open>Sent\<close>, not even those the channel has already taken.
\<close>
theorem heap_error_leaves_batch_unmarked:
  fixes s :: "('p, 'j) world"
  assumes ok: "pg_ok s"
    and fetched: "pg_fetch_next_to_process c cfg (batch_size cfg) s = (Inr evs, u)" "evs \<noteq> []"
    and failed: "publish_loop (world_publisher b) (world_heap dlq moka rcfg) (world_recorder met) evs [] u =
      (Inl e, t)"
  shows "process_pending_events (worker_of c cfg b) (world_heap dlq moka rcfg) (world_recorder met) s =
      (Inl e, t) \<and>
    (\<forall>i. pg_status t i = Some Sent \<longrightarrow> pg_status s i = Some Sent) \<and>
    (\<forall>i \<in> eid ` set evs. pg_status t i = Some Processing)"
proof -
  have "process_pending_events (worker_of c cfg b) (world_heap dlq moka rcfg) (world_recorder met) s =
      (Inl e, t)"
    using fetched failed by (simp add: process_pending_events_def event_publish_def and_then_def)
  moreover have "pg_status t = pg_status u" using worker.loop_frame[OF failed] by blast
  moreover have "pg_status u = (\<lambda>i. if i \<in> eid ` set evs then Some Processing else pg_status s i)"
    using pg_fetch_law_ok[OF ok fetched(1)] by blast
  ultimately show ?thesis by (auto split: if_splits)
qed

text \<open>
  In the witness the event is published and the heap then refuses the \<open>ZREM\<close>.
\<close>
theorem heap_error_leaves_batch_unmarked_witness:
  "\<exists>m t. process_pending_events (worker_of sample_client in_memory_config Tokio_channel)
      (world_heap True True sample_redis) (world_recorder False)
      ((world_with [row 1 Pending 0])\<lparr> redis_script := [Some (False, ''down'')] \<rparr>) =
        (Inl (InfrastructureError m), t) \<and>
    published Tokio_channel t = [EventId 1] \<and> pg_status t (EventId 1) = Some Processing"
proof -
  let ?s = "(world_with [row 1 Pending 0])\<lparr> redis_script := [Some (False, ''down'')] \<rparr>"
  obtain evs u m t where
    run: "pg_fetch_next_to_process sample_client in_memory_config (batch_size in_memory_config) ?s = (Inr evs, u)"
      "publish_loop (world_publisher Tokio_channel) (world_heap True True sample_redis) (world_recorder False) evs [] u =
        (Inl (InfrastructureError m), t)"
    and ids: "map eid evs = [EventId 1]" and pub: "published Tokio_channel t = [EventId 1]"
    by (simp add: batch_run redis_run pg_run sample_run)
  have "pg_ok ?s" by (simp add: pg_ok_def world_with_def)
  moreover have "evs \<noteq> []" and "EventId 1 \<in> eid ` set evs"
    using ids by (auto simp: map_eq_Cons_conv)
  ultimately have "process_pending_events (worker_of sample_client in_memory_config Tokio_channel)
      (world_heap True True sample_redis) (world_recorder False) ?s = (Inl (InfrastructureError m), t)"
    and "pg_status t (EventId 1) = Some Processing"
    using heap_error_leaves_batch_unmarked[OF _ run(1) _ run(2)] by blast+
  with pub show ?thesis by (intro exI[of _ m] exI[of _ t] conjI)
qed

section \<open>Draining\<close>

text \<open>
  C19. A drain comes back: when no lock of this drain expires while it lasts (the lock outlives the
  scripted delays), the inner loop of the manager ends after finitely many batches, whatever fails.
\<close>
theorem drain_ends_while_locks_hold:
  fixes s :: "('p, 'j) world"
  assumes "pg_ok s" and "pg_calm cfg s"
  shows "\<exists>y. drain (worker_of c cfg b) (world_heap dlq moka rcfg) (world_recorder met) rx sleep s = Some y"
  using assms by (rule drainer.drain_terminates)

theorem drain_ends_while_locks_hold_witness:
  "\<exists>y. drain (worker_of sample_client in_memory_config Flaky_channel) (world_heap True True sample_redis)
      (world_recorder True) world_rx world_sleep
      ((world_with [row 1 Pending 0, row 2 Processing 5])\<lparr> pg_script :=
        [quiet_env\<lparr> delay := 1000000 \<rparr>, quiet_env\<lparr> fault := Some (Ack_lost ''reset'') \<rparr>] \<rparr>) = Some y"
  by (rule drain_ends_while_locks_hold)
    (simp_all add: pg_ok_def pg_calm_def horizon_def sample_run fair_scan_def quiet_env_def)

lemma drain_moves:
  fixes s :: "('p, 'j) world"
  assumes ok: "pg_ok s" and healthy: "world_healthy c b dlq rcfg s" and "0 \<le> sint (lock_timeout_mins cfg)"
    and size: "batch_size cfg \<noteq> 0"
  shows "\<exists>t. drain (worker_of c cfg b) (world_heap dlq moka rcfg) (world_recorder met) world_rx sleep s =
      Some (Back_to_waiting, t) \<and> pg_due t = {} \<and> deliver.moved b c s t"
proof -
  have "pg_calm cfg s" using assms(2,3) by (simp add: pg_calm_quiet world_healthy_def)
  from deliver.drain_delivers[where rx = world_rx and sleep = sleep, OF ok this healthy size] show ?thesis
    by (fastforce simp: world_rx_def world_healthy_def)
qed



lemma broker_down_loop:
  "broker_down b s \<Longrightarrow> publish_loop (world_publisher b) None None evs acc s = (Inr acc, s)"
  by (induction evs arbitrary: acc; cases b)
    (auto simp: tokio_publish_def flaky_publish_def world_tx_def kafka_publish_def world_kafka_def
      world_producer_def Let_def split: sum.splits)



end
