(* ===== verification/Quarantine_Properties.thy ===== *)
theory Quarantine_Properties
  imports Samples
begin

text \<open>
  The dead-letter path: counters in Redis, the reaper's drain, the move into the dead-letter table,
  and what is left of it when the storage is built without the feature.
\<close>

section \<open>The counters\<close>

abbreviation failures :: "bool \<Rightarrow> redis_token_config \<Rightarrow> ('p, 'j) world \<Rightarrow> event_id \<Rightarrow> nat" where
  "failures moka rcfg \<equiv> redis_counts world_text (world_provider moka rcfg) world_zset"

abbreviation heap_ok :: "bool \<Rightarrow> redis_token_config \<Rightarrow> ('p, 'j) world \<Rightarrow> bool" where
  "heap_ok moka rcfg \<equiv> redis_hinv world_text (world_provider moka rcfg) world_zset"

lemma heap_ok_sample [simp]:
  "heap_ok moka rcfg (world_with rows)" "failures moka rcfg (world_with rows) i = 0"
  by (simp_all add: redis_hinv_def redis_counts_def world_zset_def zset_list_def world_with_def)

text \<open>
  C21. A successful drain returns exactly the events whose counter has reached the threshold, each
  once, with its count cut to \<open>u32\<close>, and forgets them; every other counter stays.
\<close>
theorem drain_takes_exactly_the_exceeded:
  fixes s :: "('p, 'j) world"
  assumes "heap_ok moka rcfg s"
    and "redis_drain_exceeded world_text (world_provider moka rcfg) thr s = (Inr es, t)"
  shows "heap_ok moka rcfg t \<and> distinct (map dlq_id es) \<and>
    dlq_id ` set es = {i. 0 < failures moka rcfg s i \<and> unat thr \<le> failures moka rcfg s i} \<and>
    (\<forall>e \<in> set es. unat (failure_count e) = min (failures moka rcfg s (dlq_id e)) (2 ^ 32 - 1)) \<and>
    failures moka rcfg t = (\<lambda>i. if unat thr \<le> failures moka rcfg s i then 0 else failures moka rcfg s i)"
  using server.heap_drain[OF assms] by (simp add: unat_count_u32)

theorem drain_takes_exactly_the_exceeded_witness:
  "\<exists>es t. redis_drain_exceeded world_text (world_provider False sample_redis) 3 (world_with []) = (Inr es, t) \<and>
    dlq_id ` set es = {}"
proof -
  obtain es t where run: "redis_drain_exceeded world_text (world_provider False sample_redis) 3 (world_with []) =
      (Inr es, t)" by (simp add: redis_run sample_run)
  from drain_takes_exactly_the_exceeded[OF heap_ok_sample(1) run] run show ?thesis
    by (intro exI[of _ es] exI[of _ t] conjI) simp_all
qed

text \<open>
  C22. An event that has just failed is in the next drain exactly when that failure brought its counter
  to the threshold.
\<close>
theorem failure_reaches_drain_iff:
  fixes s :: "('p, 'j) world"
  assumes "heap_ok moka rcfg s" and "failures moka rcfg s i < 2 ^ 53"
    and "redis_record_failure world_text (world_provider moka rcfg) i s = (Inr u, t)"
    and "redis_drain_exceeded world_text (world_provider moka rcfg) thr t = (Inr es, v)"
  shows "i \<in> dlq_id ` set es \<longleftrightarrow> unat thr \<le> Suc (failures moka rcfg s i)"
  using server.heap.failure_drained_iff[OF assms(1,2), unfolded RedisProvider_simps, OF assms(3,4)] .

theorem failure_reaches_drain_iff_witness:
  "\<exists>t es v. redis_record_failure world_text (world_provider False sample_redis) (EventId 1) (world_with []) =
      (Inr (), t) \<and>
    redis_drain_exceeded world_text (world_provider False sample_redis) 1 t = (Inr es, v) \<and>
    EventId 1 \<in> dlq_id ` set es"
proof -
  obtain t es v where
    run: "redis_record_failure world_text (world_provider False sample_redis) (EventId 1) (world_with []) =
      (Inr (), t)"
      "redis_drain_exceeded world_text (world_provider False sample_redis) 1 t = (Inr es, v)"
    by (simp add: redis_run sample_run)
  have "failures False sample_redis (world_with []) (EventId 1) < 2 ^ 53" by simp
  from failure_reaches_drain_iff[OF heap_ok_sample(1) this run] run show ?thesis
    by (intro exI[of _ t] exI[of _ es] exI[of _ v] conjI) simp_all
qed

text \<open>
  A delivered event starts over: after \<open>record_success\<close> the event is in no drain until it has
  failed again.
\<close>
theorem success_clears_counter:
  fixes s :: "('p, 'j) world"
  assumes "heap_ok moka rcfg s"
    and "redis_record_success world_text (world_provider moka rcfg) i s = (Inr u, t)"
    and "redis_drain_exceeded world_text (world_provider moka rcfg) thr t = (Inr es, v)"
  shows "i \<notin> dlq_id ` set es"
  using server.heap.success_then_not_drained[OF assms(1), unfolded RedisProvider_simps, OF assms(2,3)] .

theorem success_clears_counter_witness:
  "\<exists>t es v. redis_record_success world_text (world_provider False sample_redis) (EventId 1) (world_with []) =
      (Inr (), t) \<and>
    redis_drain_exceeded world_text (world_provider False sample_redis) 1 t = (Inr es, v) \<and>
    EventId 1 \<notin> dlq_id ` set es"
proof -
  obtain t es v where
    run: "redis_record_success world_text (world_provider False sample_redis) (EventId 1) (world_with []) =
      (Inr (), t)"
      "redis_drain_exceeded world_text (world_provider False sample_redis) 1 t = (Inr es, v)"
    by (simp add: redis_run sample_run)
  from success_clears_counter[OF heap_ok_sample(1) run] run show ?thesis
    by (intro exI[of _ t] exI[of _ es] exI[of _ v] conjI) simp_all
qed

section \<open>The reaper\<close>

abbreviation reaper_of :: "('p, 'j) pg_client \<Rightarrow> 'p outbox_config \<Rightarrow> bool \<Rightarrow> redis_token_config \<Rightarrow>
    (('p, 'j) world, 'p) dlq_processor" where
  "reaper_of c cfg moka rcfg \<equiv> DlqProcessor_new (RedisProvider_heap world_text (world_provider moka rcfg))
     (PostgresOutbox c cfg) cfg world_rx"

text \<open>
  C23. A reaper tick, whatever fails in it, leaves every row where it is, or moves it to the
  dead-letter table, and it moves none whose counter was below the threshold.
\<close>
theorem reaper_moves_only_exceeded:
  fixes s :: "('p, 'j) world"
  assumes "pg_ok s" and "heap_ok moka rcfg s" and "dlq_tick (reaper_of c cfg moka rcfg) s = t"
    and "pg_status s i \<noteq> None"
  shows "pg_status t i = pg_status s i \<or>
    pg_status t i = None \<and> i \<in> pg_dead t \<and> unat (dlq_threshold cfg) \<le> failures moka rcfg s i"
  using assms by (rule reaper.tick_keeps_or_quarantines)

theorem reaper_moves_only_exceeded_witness:
  "pg_status (dlq_tick (reaper_of sample_client in_memory_config False sample_redis)
     (world_with [row 1 Processing 5])) (EventId 1) = Some Processing"
proof -
  let ?s = "world_with [row 1 Processing 5]"
  have "pg_status ?s (EventId 1) = Some Processing" by (simp add: pg_status_def row_status_def sample_run)
  moreover have "pg_ok ?s" by simp
  ultimately have "pg_status (dlq_tick (reaper_of sample_client in_memory_config False sample_redis) ?s) (EventId 1) =
      Some Processing \<or>
    unat (dlq_threshold in_memory_config) \<le> failures False sample_redis ?s (EventId 1)"
    using reaper_moves_only_exceeded[of ?s False sample_redis sample_client in_memory_config _ "EventId 1"] by auto
  then show ?thesis by (simp add: in_memory_config_def)
qed

text \<open>
  C24. With a storage built without its \<open>dlq\<close> feature the reaper only loses information: the default
  \<open>quarantine_events\<close> refuses, so a tick whose drain succeeds changes no row, and the counters it
  drained are gone.
\<close>
theorem reaper_without_storage_feature_forgets:
  fixes s :: "('p, 'j) world"
  assumes "heap_ok moka rcfg s"
    and drained: "redis_drain_exceeded world_text (world_provider moka rcfg) (dlq_threshold cfg) s = (Inr es, u)"
    and tick: "dlq_tick (DlqProcessor_new (RedisProvider_heap world_text (world_provider moka rcfg))
      ((PostgresOutbox c cfg)\<lparr> quarantine_events := quarantine_events_default \<rparr>) cfg world_rx) s = t"
  shows "outbox_events t = outbox_events s \<and> outbox_dead_letters t = outbox_dead_letters s \<and>
    failures moka rcfg t =
      (\<lambda>i. if unat (dlq_threshold cfg) \<le> failures moka rcfg s i then 0 else failures moka rcfg s i)"
proof -
  have "t = u"
    using drained tick by (simp add: dlq_tick_def DlqProcessor_new_def quarantine_events_default_def
        split: if_splits)
  then show ?thesis
    using server.heap_drain[OF assms(1) drained] redis_frame_views(9,10)[OF drain_frame[OF drained]] by blast
qed

theorem reaper_without_storage_feature_forgets_witness:
  "\<exists>t u. redis_record_failure world_text (world_provider False sample_redis) (EventId 1)
      (world_with [row 1 Processing 5]) = (Inr (), t) \<and>
    dlq_tick (DlqProcessor_new (RedisProvider_heap world_text (world_provider False sample_redis))
      ((PostgresOutbox sample_client (in_memory_config\<lparr> dlq_threshold := 1 \<rparr>))
        \<lparr> quarantine_events := quarantine_events_default \<rparr>)
      (in_memory_config\<lparr> dlq_threshold := 1 \<rparr>) world_rx) t = u \<and>
    outbox_events u = [row 1 Processing 5] \<and> failures False sample_redis u (EventId 1) = 0"
proof -
  let ?cfg = "in_memory_config\<lparr> dlq_threshold := 1 \<rparr>"
  let ?dp = "DlqProcessor_new (RedisProvider_heap world_text (world_provider False sample_redis))
    ((PostgresOutbox sample_client ?cfg)\<lparr> quarantine_events := quarantine_events_default \<rparr>) ?cfg world_rx"
  obtain t es v where
    run: "redis_record_failure world_text (world_provider False sample_redis) (EventId 1)
        (world_with [row 1 Processing 5]) = (Inr (), t)"
      "redis_drain_exceeded world_text (world_provider False sample_redis) (dlq_threshold ?cfg) t = (Inr es, v)"
    and rows: "outbox_events t = [row 1 Processing 5]"
    by (simp add: redis_run sample_run)
  have few: "failures False sample_redis (world_with [row 1 Processing 5]) (EventId 1) < 2 ^ 53" by simp
  note f = server.heap_failure[OF heap_ok_sample(1) few run(1)]
  have "heap_ok False sample_redis t" using f by blast
  note forget = reaper_without_storage_feature_forgets[OF this run(2), of sample_client "dlq_tick ?dp t", OF refl]
  have "failures False sample_redis (dlq_tick ?dp t) (EventId 1) = 0" using forget by simp
  with run(1) forget rows show ?thesis by (intro exI[of _ t] exI[of _ "dlq_tick ?dp t"] conjI) simp_all
qed

end
