(* ===== verification/Settling_Properties.thy ===== *)
theory Settling_Properties
  imports Delivery_Properties Quarantine_Properties Intake_Properties
begin

text \<open>
  The whole cycle on a good day: a manager that polls, the counters of the Redis heap, and the reaper.
  Every stored event comes to rest: published and \<open>Sent\<close>, or, when the transport refuses it, in the
  dead-letter table.
\<close>

abbreviation manager_of :: "('p, 'j) pg_client \<Rightarrow> 'p outbox_config \<Rightarrow> 'p broker \<Rightarrow> bool \<Rightarrow>
    redis_token_config \<Rightarrow> (('p, 'j) world, 'p) outbox_manager" where
  "manager_of c cfg b moka rcfg \<equiv> OutboxManager_new (PostgresOutbox c cfg) (world_publisher b) cfg
     (Some (RedisProvider_heap world_text (world_provider moka rcfg))) world_rx"

definition waiting :: "('p, 'j) world \<Rightarrow> event_id set" where
  "waiting s = {i. pg_status s i \<in> {Some Pending, Some Processing}}"

text \<open>Polls of the manager, each \<open>d\<close> seconds after the one before it has ended.\<close>

abbreviation polls_after :: "nat list \<Rightarrow> (manager_arm, ('p, 'j) world) schedule" where
  "polls_after ds \<equiv> map (\<lambda>d. (world_sleep d, Poll_tick)) ds"

lemma manager_settles:
  fixes s :: "('p, 'j) world"
  assumes "pg_ok s" and "world_healthy c b True rcfg s" and "orderly cfg s" and "heap_ok moka rcfg s"
    and "0 \<le> sint (lock_timeout_mins cfg)" and "batch_size cfg \<noteq> 0" and "poll_interval_secs cfg \<noteq> 0"
    and "\<forall>i. failures moka rcfg s i + length (concat blocks) < 2 ^ 53"
    and "\<forall>ds \<in> set blocks. lock_secs cfg \<le> sum_list ds"
    and "blocks \<noteq> []" and "unat (dlq_threshold cfg) \<le> length blocks"
  shows "\<exists>t u new.
    manager_run (manager_of c cfg b moka rcfg) (world_recorder met) world_sleep
      (polls_after (concat blocks)) s = Return (Some (None, t)) \<and>
    dlq_tick (reaper_of c cfg moka rcfg) t = u \<and>
    published b u = published b s @ new \<and> distinct new \<and>
    set new = waiting s - pg_refused c (refuses b) s \<and>
    (\<forall>i \<in> waiting s. if i \<in> pg_refused c (refuses b) s then pg_status u i = None \<and> i \<in> pg_dead u
      else pg_status u i = Some Sent) \<and>
    pg_dead s \<subseteq> pg_dead u"
proof -
  have fit: "settle.fit cfg c b rcfg moka s"
    using assms(1-5) unfolding settle.fit_def by (simp add: pg_calm_quiet world_healthy_def)
  have rx: "\<And>s. world_healthy c b True rcfg s \<Longrightarrow> \<not> borrow world_rx s"
    by (simp add: world_rx_def world_healthy_def)
  have "\<forall>ds \<in> set blocks. ds \<noteq> [] \<and> lock_secs cfg \<le> sum_list ds"
    using assms(9) by (fastforce simp: lock_secs_def)
  note settled = settle.system_settles[OF fit assms(8,6) _ this assms(10,11), where rx = world_rx and rx' = world_rx
    and sleep = world_sleep, unfolded settle.unsent_def settle.polls_def, folded waiting_def]
  obtain t where t: "select_loop (manager_turn (manager_of c cfg b moka rcfg) (world_recorder met) world_sleep)
      (polls_after (concat blocks)) s = Some (None, t)"
    "\<forall>u. dlq_tick (reaper_of c cfg moka rcfg) t = u \<longrightarrow>
      (\<exists>new. published b u = published b s @ new \<and> distinct new \<and> set new = waiting s - pg_refused c (refuses b) s) \<and>
      (\<forall>i \<in> waiting s. if i \<in> pg_refused c (refuses b) s then pg_status u i = None \<and> i \<in> pg_dead u
        else pg_status u i = Some Sent) \<and> pg_dead s \<subseteq> pg_dead u"
    using settled[OF rx] by blast
  have "manager_run (manager_of c cfg b moka rcfg) (world_recorder met) world_sleep
      (polls_after (concat blocks)) s = Return (Some (None, t))"
    using t(1) assms(7) unfolding manager_run_def by (simp add: OutboxManager_new_def)
  with t(2) show ?thesis by metis
qed

text \<open>
  C5. Every event settles. Start from keyed, disjoint tables whose locks reach no further than the lock
  timeout, in a world where no call fails, and let the manager poll in any rhythm that splits into
  blocks, each spanning the lock timeout; then let the reaper tick once. If there are as many blocks as the
  dead-letter threshold asks for (and the counters stay below \<open>2 ^ 53\<close>), every row that was waiting or
  claimed is settled: the ones the transport takes have been published exactly once and are \<open>Sent\<close>, the
  ones it refuses have left the active table for the dead letters.
\<close>
theorem every_event_settles:
  fixes s :: "('p, 'j) world"
  assumes "pg_ok s" and "world_healthy c b True rcfg s" and "orderly cfg s" and "heap_ok moka rcfg s"
    and "0 \<le> sint (lock_timeout_mins cfg)" and "batch_size cfg \<noteq> 0" and "poll_interval_secs cfg \<noteq> 0"
    and "\<forall>i. failures moka rcfg s i + length (concat blocks) < 2 ^ 53"
    and "\<forall>ds \<in> set blocks. lock_secs cfg \<le> sum_list ds"
    and "blocks \<noteq> []" and "unat (dlq_threshold cfg) \<le> length blocks"
  shows "\<exists>t u new.
    manager_run (manager_of c cfg b moka rcfg) (world_recorder met) world_sleep
      (polls_after (concat blocks)) s = Return (Some (None, t)) \<and>
    dlq_tick (reaper_of c cfg moka rcfg) t = u \<and>
    published b u = published b s @ new \<and> distinct new \<and>
    set new = waiting s - pg_refused c (refuses b) s \<and>
    (\<forall>i \<in> waiting s. if i \<in> pg_refused c (refuses b) s then pg_status u i = None \<and> i \<in> pg_dead u
      else pg_status u i = Some Sent)"
  using manager_settles[OF assms] by blast

text \<open>
  In the witness the lock timeout is one minute and the threshold is two: of five polls the cursed event
  fails those that find its lock expired and is dead-lettered, the other is delivered.
\<close>
theorem every_event_settles_witness:
  "\<exists>t u. manager_run (manager_of sample_client (in_memory_config\<lparr> dlq_threshold := 2 \<rparr>) Flaky_channel True sample_redis)
      (world_recorder True) world_sleep
      (polls_after [30, 31, 20, 20, 21])
      (world_with [(row 1 Pending 0)\<lparr> event_type := EventType ''CursedPing'' \<rparr>, row 2 Processing 0]) =
        Return (Some (None, t)) \<and>
    dlq_tick (reaper_of sample_client (in_memory_config\<lparr> dlq_threshold := 2 \<rparr>) True sample_redis) t = u \<and>
    published Flaky_channel u = [EventId 2] \<and> pg_status u (EventId 2) = Some Sent \<and>
    pg_status u (EventId 1) = None \<and> EventId 1 \<in> pg_dead u"
proof -
  let ?s = "world_with [(row 1 Pending 0)\<lparr> event_type := EventType ''CursedPing'' \<rparr>, row 2 Processing 0]"
  let ?cfg = "in_memory_config\<lparr> dlq_threshold := 2 \<rparr>"
  let ?blocks = "[[30, 31], [20, 20, 21]] :: nat list list"
  have h: "pg_ok ?s" "world_healthy sample_client Flaky_channel True sample_redis ?s" "orderly ?cfg ?s"
    by (simp_all add: row_def world_healthy_def decodable_def sample_run world_str_def str_lookup_def orderly_def
        pg_ok_def)
  have cfg: "0 \<le> sint (lock_timeout_mins ?cfg)" "batch_size ?cfg \<noteq> 0" "poll_interval_secs ?cfg \<noteq> 0"
    "\<forall>ds \<in> set ?blocks. lock_secs ?cfg \<le> sum_list ds" "?blocks \<noteq> []" "unat (dlq_threshold ?cfg) \<le> length ?blocks"
    by (simp_all add: in_memory_config_def lock_secs_def)
  have w: "waiting ?s = {EventId 1, EventId 2}"
    by (auto simp: waiting_def pg_status_def row_status_def sample_run split: if_splits)
  have r: "pg_refused sample_client (refuses Flaky_channel) ?s = {EventId 1}"
    by (auto simp: pg_refused_run sample_run decode_row_def with_payload_def simp del: set_map set_filter)
  obtain t u new where t: "manager_run (manager_of sample_client ?cfg Flaky_channel True sample_redis)
      (world_recorder True) world_sleep (polls_after (concat ?blocks)) ?s =
        Return (Some (None, t))"
    "dlq_tick (reaper_of sample_client ?cfg True sample_redis) t = u"
    "published Flaky_channel u = published Flaky_channel ?s @ new" "distinct new"
    "set new = waiting ?s - pg_refused sample_client (refuses Flaky_channel) ?s"
    "\<forall>i \<in> waiting ?s. if i \<in> pg_refused sample_client (refuses Flaky_channel) ?s
      then pg_status u i = None \<and> i \<in> pg_dead u else pg_status u i = Some Sent"
    using every_event_settles[OF h _ cfg(1-3) _ cfg(4-6)] by fastforce
  have "set new = {EventId 2}" using t(5) unfolding w r by auto
  with t(4) have "new = [EventId 2]" by (cases new) (auto simp: subset_singleton_iff)
  with t(3) have "published Flaky_channel u = [EventId 2]" by (simp add: world_with_def)
  with t(1,2,6) show ?thesis
    unfolding w r by (intro exI[of _ t] exI[of _ u] conjI) simp_all
qed

section \<open>From the producer to the broker\<close>

lemma reserve_healthy:
  fixes s :: "('p, 'j) world"
  assumes "world_healthy c b dlq rcfg s" and "k \<noteq> DLQ_KEY_SUFFIX"
    and "redis_try_reserve (world_provider moka rcfg) (IdempotencyToken k) s = (r, t)"
  shows "world_healthy c b dlq rcfg t"
proof -
  have cache: "world_healthy c b dlq rcfg (u\<lparr> cached_keys := x \<rparr>) = world_healthy c b dlq rcfg u"
    for u :: "('p, 'j) world" and x
    by (cases b) (simp_all add: world_healthy_def decodable_def world_str_def)
  have strings: "world_healthy c b dlq rcfg (u\<lparr> redis_strings := (key, v) # xs \<rparr>) = world_healthy c b dlq rcfg u"
    if "xs = redis_strings u" and "key \<noteq> heap_key rcfg" for u :: "('p, 'j) world" and key v xs
    using that by (cases b) (simp_all add: world_healthy_def decodable_def world_str_def str_lookup_def)
  have script: "world_healthy c b dlq rcfg u \<Longrightarrow> world_healthy c b dlq rcfg (u\<lparr> redis_script := tl (redis_script u) \<rparr>)"
    for u :: "('p, 'j) world"
    by (cases b) (auto simp: world_healthy_def decodable_def)
  have set: "world_healthy c b dlq rcfg u"
    if "world_set_nx_ex (key_prefix rcfg @ '':'' @ k) ''1'' n s = (q, u)" for n q u
    using that assms(1) script[OF assms(1)] unfolding world_set_nx_ex_def redis_cmd_def Let_def
    by (auto split: list.splits option.splits prod.splits bool.splits if_splits
        simp: strings heap_key_def assms(2))
  obtain q u where c: "world_set_nx_ex (key_prefix rcfg @ '':'' @ k) ''1'' (as_secs (ttl rcfg)) s = (q, u)"
    by fastforce
  show ?thesis
    using assms(1,3) set[OF c]
    unfolding redis_try_reserve_def Let_def token_key_def world_service_provider world_conn_simps
      token_as_str.simps c
    by (auto simp: world_cache_def cache split: sum.splits if_splits option.splits)
qed

lemma reserve_keeps_published:
  fixes s :: "('p, 'j) world"
  assumes "redis_try_reserve (world_provider moka rcfg) tok s = (r, t)"
  shows "pg_ok t = pg_ok s \<and> published b t = published b s"
proof -
  obtain q u where c: "world_set_nx_ex (key_prefix rcfg @ '':'' @ token_as_str tok) ''1'' (as_secs (ttl rcfg)) s = (q, u)"
    by fastforce
  note frame = redis_call_frames(1)[OF c]
  have "published b (x\<lparr> cached_keys := y \<rparr>) = published b x \<and> pg_ok (x\<lparr> cached_keys := y \<rparr>) = pg_ok x"
    for x :: "('p, 'j) world" and y by (cases b) (simp_all add: pg_ok_def)
  with assms redis_frame_views(1)[OF frame] redis_frame_published[OF frame, of b] show ?thesis
    unfolding redis_try_reserve_def Let_def token_key_def world_service_provider world_conn_simps c
    by (auto simp: world_cache_def split: sum.splits if_splits option.splits)
qed

lemma image_key: "k \<in> f ` {r \<in> X. P r} \<longleftrightarrow> (\<exists>r \<in> {r \<in> X. f r = k}. P r)"
  by auto

lemma insert_healthy:
  fixes s :: "('p, 'j) world"
  assumes ok: "pg_ok s" and healthy: "world_healthy c b dlq rcfg s"
    and codec: "\<forall>p j. to_value c p = Inr j \<longrightarrow> from_value c j = Inr p"
    and run: "pg_insert_event c e s = (Inr u, t)" and pending: "status e = Pending"
  shows "pg_ok t \<and> world_healthy c b dlq rcfg t \<and> eid e \<in> pg_due t \<and>
    (eid e \<in> pg_refused c (refuses b) t \<longleftrightarrow> refuses b e)"
proof -
  have quiet: "pg_script s = []" using healthy by (simp add: world_healthy_def)
  obtain j where j: "to_value c (as_value (payload e)) = Inr j"
    and t: "t = s\<lparr> outbox_events := outbox_events s @ [with_payload (Payload j) e] \<rparr>"
    and new: "eid e \<notin> eid ` set (outbox_events s)"
    by (rule insert_ok[OF run]) (simp add: advance_quiet[OF quiet])
  have dec: "decode_row (from_value c) (with_payload (Payload j) e) = Inr e"
    using codec j by (cases "payload e") (simp add: decode_row_def with_payload_def Payload_new_def)
  have ok_t: "pg_ok t" using pg_insert_law[OF ok run] by blast
  have "decodable c t = decodable c s"
    using codec j by (auto simp: t decodable_def with_payload_def)
  then have "world_healthy c b dlq rcfg t" unfolding t using world_healthy_events healthy by blast
  moreover have "eid e \<in> pg_due t"
    using pending by (force simp: pg_due_def t claimable_def with_payload_def)
  moreover have "eid e \<in> pg_refused c (refuses b) t \<longleftrightarrow> refuses b e"
  proof -
    have "{r \<in> set (outbox_events t). eid r = eid e} = {with_payload (Payload j) e}"
      using new by (auto simp: t image_iff) (simp add: with_payload_def)
    then have "eid e \<in> pg_refused c (refuses b) t \<longleftrightarrow>
        (\<exists>e'. decode_row (from_value c) (with_payload (Payload j) e) = Inr e' \<and> refuses b e')"
      unfolding pg_refused_def image_key by simp
    then show ?thesis by (simp add: dec)
  qed
  ultimately show ?thesis using ok_t by blast
qed



end
