(* ===== verification/Leases.thy ===== *)
theory Leases
  imports Interleaving
begin

text \<open>
  What the row locks of the storage buy a deployment with many workers: during one lock period no two
  workers hold the same event and the broker is given none twice, whatever crashes and whatever fails.
\<close>

section \<open>What a worker holds\<close>

text \<open>\<open>hand\<close> are the events of the batch a worker is busy with, \<open>todo\<close> those it has yet to publish.\<close>

fun hand :: "'p job \<Rightarrow> event_id list" where
  "hand (Batch n events success_ids) = map eid events @ success_ids"
| "hand (Noting n event ok events success_ids) = eid event # map eid events @ success_ids"
| "hand _ = []"

fun todo :: "'p job \<Rightarrow> event_id list" where
  "todo (Batch n events success_ids) = map eid events"
| "todo (Noting n event ok events success_ids) = map eid events"
| "todo _ = []"

lemma todo_hand: "set (todo j) \<subseteq> set (hand j)"
  by (cases j) auto

lemma distinct_todo: "distinct (hand j) \<Longrightarrow> distinct (todo j)"
  by (cases j) auto

text \<open>
  A generated UUID is new: a row that appears has the id of no dead letter, no published event and no
  event a worker still holds.
\<close>

definition fresh_ids :: "('s \<Rightarrow> event_id \<Rightarrow> event_status option) \<Rightarrow> ('s \<Rightarrow> event_id set) \<Rightarrow>
    ('s \<Rightarrow> event_id list) \<Rightarrow> ('s, 'p) system \<Rightarrow> ('s, 'p) system \<Rightarrow> bool" where
  "fresh_ids status_of dead accepted S T \<longleftrightarrow>
     (\<forall>i. status_of (shared S) i = None \<and> status_of (shared T) i \<noteq> None \<longrightarrow>
        i \<notin> dead (shared S) \<and> i \<notin> set (accepted (shared S)) \<and> (\<forall>k. i \<notin> set (hand (workers S k))))"

definition fresh_step :: "('s, 'p) deployment \<Rightarrow> ('s \<Rightarrow> event_id \<Rightarrow> event_status option) \<Rightarrow>
    ('s \<Rightarrow> event_id set) \<Rightarrow> ('s \<Rightarrow> event_id list) \<Rightarrow> ('s, 'p) system \<Rightarrow> ('s, 'p) system \<Rightarrow> bool" where
  "fresh_step d status_of dead accepted S T \<longleftrightarrow> sys_step d S T \<and> fresh_ids status_of dead accepted S T"

lemma fresh_steps_are_steps:
  "(fresh_step d status_of dead accepted)\<^sup>*\<^sup>* S T \<Longrightarrow> sys_steps d S T"
  by (erule mono_rtranclp[rule_format, rotated]) (simp add: fresh_step_def)

section \<open>The lease\<close>

text \<open>
  \<open>free D s i\<close>: a fetch made by the time \<open>D\<close> may claim the row. A claim makes its rows unfree for the
  time of a \<open>lease\<close>; no other call makes a row free, except the insert that creates it.
\<close>

locale lease_contract =
  system_contract d status_of dead sinv accepted
  for d :: "('s, 'p) deployment"
    and status_of :: "'s \<Rightarrow> event_id \<Rightarrow> event_status option"
    and dead :: "'s \<Rightarrow> event_id set"
    and sinv :: "'s \<Rightarrow> bool"
    and accepted :: "'s \<Rightarrow> event_id list" +
  fixes free :: "int \<Rightarrow> 's \<Rightarrow> event_id \<Rightarrow> bool"
    and clock :: "'s \<Rightarrow> int"
    and lease :: int
  assumes claim:
    "sinv s \<Longrightarrow> fetch_next_to_process (sys_storage d) l s = (Inr evs, t) \<Longrightarrow> clock t \<le> D \<Longrightarrow>
       D \<le> clock s + lease \<Longrightarrow> e \<in> set evs \<Longrightarrow> free D s (eid e) \<and> \<not> free D t (eid e)"
    and fetch_free:
    "sinv s \<Longrightarrow> fetch_next_to_process (sys_storage d) l s = (r1, t) \<Longrightarrow>
       clock s \<le> clock t \<and> (D \<le> clock s + lease \<longrightarrow> free D t i \<longrightarrow> free D s i)"
    and update_free:
    "sinv s \<Longrightarrow> update_status (sys_storage d) ids Sent s = (r2, t) \<Longrightarrow>
       clock s \<le> clock t \<and> (free D t i \<longrightarrow> free D s i)"
    and garbage_free:
    "sinv s \<Longrightarrow> delete_garbage (sys_storage d) s = (r2, t) \<Longrightarrow>
       clock s \<le> clock t \<and> (free D t i \<longrightarrow> free D s i)"
    and quarantine_free:
    "sinv s \<Longrightarrow> quarantine_events (sys_storage d) es s = (r2, t) \<Longrightarrow>
       clock s \<le> clock t \<and> (free D t i \<longrightarrow> free D s i)"
    and insert_free:
    "sinv s \<Longrightarrow> insert_event (sys_writer d) ev s = (r2, t) \<Longrightarrow>
       clock s \<le> clock t \<and> (free D t i \<longrightarrow> free D s i \<or> status_of s i = None \<and> status_of t i \<noteq> None)"
    and batch_free:
    "publish_steps_keep (sys_transport d) (sys_heap d) (sys_metrics d)
       (\<lambda>s t. clock t = clock s \<and> (\<forall>D. free D t = free D s))"
    and drain_free:
    "sys_heap d = Some hp \<Longrightarrow> drain_exceeded hp thr s = (q, t) \<Longrightarrow> clock t = clock s \<and> free D t = free D s"
    and sleep_free: "clock s \<le> clock (sys_sleep d n s) \<and> free D (sys_sleep d n s) = free D s"
begin

lemma batch_free_steps:
  "publish (sys_transport d) e s = (r, t) \<Longrightarrow> clock t = clock s \<and> free D t = free D s"
  "note_success (sys_heap d) i s = (r, t) \<Longrightarrow> clock t = clock s \<and> free D t = free D s"
  "note_failure (sys_heap d) i s = (r, t) \<Longrightarrow> clock t = clock s \<and> free D t = free D s"
  "clock (emit_success (sys_metrics d) ty s) = clock s \<and> free D (emit_success (sys_metrics d) ty s) = free D s"
  "clock (emit_error (sys_metrics d) ty s) = clock s \<and> free D (emit_error (sys_metrics d) ty s) = free D s"
  using batch_free unfolding publish_steps_keep_def by blast+

text \<open>The three kinds of call a worker makes: it claims, it publishes, or it puts something away.\<close>

lemma worker_moves:
  assumes inv: "sinv s" and run: "worker_step d (j, s) = (j', t)" and D: "clock t \<le> D" "D \<le> clock s + lease"
  obtains (claims) "j = Idle" and "accepted t = accepted s" and "distinct (hand j')" and "todo j' = hand j'"
      and "\<forall>i \<in> set (hand j'). free D s i \<and> \<not> free D t i"
  | (publishes) i where "todo j = i # todo j'" and "hand j' = hand j"
      and "accepted t = accepted s \<or> accepted t = accepted s @ [i]"
  | (settles) "accepted t = accepted s" and "set (hand j') \<subseteq> set (hand j)"
      and "distinct (hand j) \<Longrightarrow> distinct (hand j')" and "set (todo j') \<subseteq> set (todo j)"
proof (cases j)
  case Idle
  obtain r u where f: "fetch_next_to_process (sys_storage d) (batch_size (sys_config d)) s = (r, u)"
    by fastforce
  with run Idle have u: "t = u" by (auto split: sum.splits)
  note log = storage_log(1)[OF f]
  show thesis
  proof (cases "\<exists>evs. r = Inr evs \<and> evs \<noteq> []")
    case True
    then obtain evs where r: "r = Inr evs" "evs \<noteq> []" by blast
    have j': "j' = Batch (length evs) evs []" using run Idle f r by simp
    have "distinct (map eid evs)" using fetch_ok[OF inv f[unfolded r]] by blast
    with claim[OF inv f[unfolded r] D[unfolded u]] show thesis
      by (intro claims) (auto simp: Idle j' u log)
  next
    case False
    then have "hand j' = []" "todo j' = []" using run Idle f by (auto split: sum.splits)
    then show thesis by (intro settles) (simp_all add: u log)
  qed
next
  case (Batch n es ids)
  show thesis
  proof (cases es)
    case Nil
    obtain r u where u: "update_status (sys_storage d) ids Sent s = (r, u)" by fastforce
    show thesis
    proof (rule settles)
      show "accepted t = accepted s" using run Batch Nil u storage_log(2)[OF u] by (auto split: sum.splits if_splits)
      have "hand j' = []" "todo j' = []" using run Batch Nil u by (auto split: sum.splits if_splits)
      then show "set (hand j') \<subseteq> set (hand j)" "distinct (hand j) \<Longrightarrow> distinct (hand j')"
        "set (todo j') \<subseteq> set (todo j)" by simp_all
    qed
  next
    case (Cons e es')
    obtain r u where p: "publish (sys_transport d) e s = (r, u)" by fastforce
    from run Batch Cons p have "t = u" and j': "j' = Noting n e (case r of Inl _ \<Rightarrow> False | Inr _ \<Rightarrow> True) es' ids"
      by (auto split: sum.splits)
    with publish_log[OF p] Batch Cons show thesis by (intro publishes) simp_all
  qed
next
  case (Noting n e ok es ids)
  obtain r u where "if ok then note_success (sys_heap d) (eid e) s = (r, u)
      else note_failure (sys_heap d) (eid e) s = (r, u)" by (cases ok) fastforce+
  with run Noting note_log show thesis
    by (cases ok) (auto intro!: settles split: sum.splits)
next
  case (Finished r)
  with run show thesis by (intro settles) auto
qed

lemma worker_free:
  assumes inv: "sinv s" and run: "worker_step d (j, s) = (j', t)"
  shows "clock s \<le> clock t \<and> (D \<le> clock s + lease \<longrightarrow> free D t i \<longrightarrow> free D s i)"
proof (cases j)
  case Idle
  obtain r u where f: "fetch_next_to_process (sys_storage d) (batch_size (sys_config d)) s = (r, u)"
    by fastforce
  with run Idle have "t = u" by (auto split: sum.splits)
  with fetch_free[OF inv f] show ?thesis by simp
next
  case (Batch n es ids)
  show ?thesis
  proof (cases es)
    case Nil
    obtain r u where u: "update_status (sys_storage d) ids Sent s = (r, u)" by fastforce
    with run Batch Nil have "t = u \<or> t = s" by (auto split: sum.splits if_splits)
    with update_free[OF inv u] show ?thesis by auto
  next
    case (Cons e es')
    obtain r u where p: "publish (sys_transport d) e s = (r, u)" by fastforce
    with run Batch Cons have "t = u" by (auto split: sum.splits)
    with batch_free_steps(1)[OF p] show ?thesis by simp
  qed
next
  case (Noting n e ok es ids)
  then show ?thesis
    using run batch_free_steps(2,3)[of "eid e" s] batch_free_steps(4,5)
    by (cases ok) (auto split: sum.splits prod.splits)
next
  case (Finished r)
  with run show ?thesis by simp
qed

lemma step_free:
  assumes "sys_step d S T" and inv: "sinv (shared S)"
  shows "clock (shared S) \<le> clock (shared T) \<and> (D \<le> clock (shared S) + lease \<longrightarrow>
    free D (shared T) i \<longrightarrow> free D (shared S) i \<or> status_of (shared S) i = None \<and> status_of (shared T) i \<noteq> None)"
  using assms(1)
proof (cases rule: sys_step.cases)
  case (work k j t)
  from worker_free[OF inv work(2)] work(1) show ?thesis by simp
next
  case (insert h ty p tok r t)
  from insert_free[OF inv insert(2)] insert(1) show ?thesis by simp
next
  case (collect r t)
  then have "delete_garbage (sys_storage d) (shared S) = (r, t)"
    by (simp add: collect_garbage_def GarbageCollector_new_def)
  from garbage_free[OF inv this] collect(1) show ?thesis by simp
next
  case (reap hp r t)
  from drain_free[OF reap(2,3)] reap(1) show ?thesis by simp
next
  case (quarantine r t)
  from quarantine_free[OF inv quarantine(3)] quarantine(1) show ?thesis by simp
next
  case (pass n)
  with sleep_free show ?thesis by simp
qed simp_all

section \<open>One lock period\<close>

definition handed_out :: "('s, 'p) system \<Rightarrow> event_id list \<Rightarrow> event_id set" where
  "handed_out S new = set new \<union> (\<Union>k. set (hand (workers S k)))"

text \<open>
  Until \<open>D\<close>, what is in a hand or was published since the period began cannot be claimed; the hands are
  disjoint; and what a worker has yet to publish has not been published.
\<close>

definition lease_inv :: "int \<Rightarrow> ('s, 'p) system \<Rightarrow> event_id list \<Rightarrow> bool" where
  "lease_inv D S new \<longleftrightarrow> D \<le> clock (shared S) + lease \<and> distinct new \<and>
     (\<forall>i \<in> handed_out S new. \<not> free D (shared S) i) \<and>
     (\<forall>k. distinct (hand (workers S k)) \<and> set (todo (workers S k)) \<inter> set new = {}) \<and>
     (\<forall>k l. k \<noteq> l \<longrightarrow> set (hand (workers S k)) \<inter> set (hand (workers S l)) = {})"

lemma lease_inv_step:
  assumes step: "fresh_step d status_of dead accepted S T" and inv: "sinv (shared S)"
    and log: "accepted (shared S) = old @ new" and J: "lease_inv D S new" and due: "clock (shared T) \<le> D"
  shows "\<exists>new'. accepted (shared T) = old @ new' \<and> lease_inv D T new'"
proof -
  have sys: "sys_step d S T" and fresh: "fresh_ids status_of dead accepted S T"
    using step by (simp_all add: fresh_step_def)
  have D: "D \<le> clock (shared S) + lease" and dist: "distinct new"
    and busy: "\<And>i. i \<in> handed_out S new \<Longrightarrow> \<not> free D (shared S) i"
    and hands: "\<And>k. distinct (hand (workers S k))" "\<And>k. set (todo (workers S k)) \<inter> set new = {}"
      "\<And>k l. k \<noteq> l \<Longrightarrow> set (hand (workers S k)) \<inter> set (hand (workers S l)) = {}"
    using J by (auto simp: lease_inv_def)
  note tick = step_free[OF sys inv]
  have D': "D \<le> clock (shared T) + lease" using tick D by fastforce
  have still: "\<not> free D (shared T) i" if "i \<in> handed_out S new" for i
    using tick[of D i] D busy[OF that] fresh that log by (auto simp: fresh_ids_def handed_out_def)
  have keep: "lease_inv D T new"
    if h: "\<And>k. set (hand (workers T k)) \<subseteq> set (hand (workers S k))" "\<And>k. distinct (hand (workers T k))"
      "\<And>k. set (todo (workers T k)) \<subseteq> set (todo (workers S k))"
    unfolding lease_inv_def
  proof (intro conjI allI ballI impI D' dist h(2))
    show "\<not> free D (shared T) i" if "i \<in> handed_out T new" for i
      using that h(1) still by (auto simp: handed_out_def)
    show "set (todo (workers T k)) \<inter> set new = {}" for k using h(3)[of k] hands(2)[of k] by blast
    show "set (hand (workers T k)) \<inter> set (hand (workers T l)) = {}" if "k \<noteq> l" for k l
      using h(1)[of k] h(1)[of l] hands(3)[OF that] by blast
  qed
  have quiet: "lease_inv D T new" if "workers T = workers S" using keep that hands by simp
  show ?thesis
    using sys
  proof (cases rule: sys_step.cases)
    case (work k j t)
    have sh: "shared T = t" and wk: "workers T = (workers S)(k := j)" using work(1) by simp_all
    show ?thesis
      using inv work(2) due[unfolded sh] D
    proof (cases rule: worker_moves)
      case claims
      have apart: "set (hand j) \<inter> handed_out S new = {}" using claims(5) busy by blast
      have "lease_inv D T new"
        unfolding lease_inv_def
      proof (intro conjI allI ballI impI)
            show "\<not> free D (shared T) i" if "i \<in> handed_out T new" for i
          using that claims(5) still[of i] by (auto simp: handed_out_def wk sh split: if_splits)
        show "set (todo (workers T l)) \<inter> set new = {}" for l
          using apart hands(2) claims(4) by (auto simp: wk handed_out_def)
        show "set (hand (workers T l)) \<inter> set (hand (workers T m)) = {}" if "l \<noteq> m" for l m
          using apart hands(3)[OF that] that by (auto simp: wk handed_out_def)
      qed (use dist claims(3) hands(1) wk D' in auto)
      with log claims(2) show ?thesis unfolding sh by (intro exI[of _ new]) simp
    next
      case (publishes i)
      have i: "i \<in> set (todo (workers S k))" "i \<in> set (hand (workers S k))"
        using publishes(1) todo_hand[of "workers S k"] by auto
      have same: "hand (workers T l) = hand (workers S l)" for l by (simp add: wk publishes(2))
      obtain new' where new': "accepted t = old @ new'" "new' = new \<or> new' = new @ [i]"
        using publishes(3) log by auto
      have "distinct (todo (workers S k))" using distinct_todo hands(1) by blast
      then have left: "set (todo (workers T l)) \<inter> set new' = {}" for l
      proof (cases "l = k")
        case True
        with \<open>distinct (todo (workers S k))\<close> show ?thesis
          using publishes(1) new'(2) hands(2)[of k] by (auto simp: wk)
      next
        case False
        then have "i \<notin> set (todo (workers S l))" using hands(3)[OF False] i(2) todo_hand[of "workers S l"] by blast
        with False show ?thesis using new'(2) hands(2)[of l] by (auto simp: wk)
      qed
      have "handed_out T new' = handed_out S new" using new'(2) i(2) same by (auto simp: handed_out_def)
      then have "lease_inv D T new'"
        unfolding lease_inv_def same using D' still left hands(1,3) new'(2) dist hands(2)[of k] i(1) by auto
      with new'(1) show ?thesis unfolding sh by blast
    next
      case settles
      have "lease_inv D T new" by (rule keep) (use settles hands wk in auto)
      with log settles(1) show ?thesis unfolding sh by (intro exI[of _ new]) simp
    qed
  next
    case (crash k)
    have "lease_inv D T new" by (rule keep) (use hands crash in auto)
    with log crash show ?thesis by (intro exI[of _ new]) simp
  next
    case (insert h ty p tok r t)
    with log other_logs(1)[OF insert(2)] quiet show ?thesis by auto
  next
    case (collect r t)
    then have "delete_garbage (sys_storage d) (shared S) = (r, t)"
      by (simp add: collect_garbage_def GarbageCollector_new_def)
    with log other_logs(2)[OF this] quiet collect show ?thesis by auto
  next
    case (reap hp r t)
    with log other_logs(4)[OF reap(2,3)] quiet show ?thesis by auto
  next
    case (quarantine r t)
    with log other_logs(3)[OF quarantine(3)] quiet show ?thesis by auto
  next
    case reaper_crash
    with log quiet show ?thesis by auto
  next
    case (pass n)
    with log other_logs(5) quiet show ?thesis by auto
  qed
qed

lemma steps_later: "sys_steps d S T \<Longrightarrow> sys_inv S \<Longrightarrow> clock (shared S) \<le> clock (shared T)"
proof (induction rule: rtranclp_induct)
  case (step T U)
  from steps_progress[OF step.hyps(1) step.prems] have "sinv (shared T)" by (simp add: sys_inv_def)
  from step_free[OF step.hyps(2) this] step.IH[OF step.prems] show ?case by fastforce
qed simp

lemma period_inv:
  assumes "(fresh_step d status_of dead accepted)\<^sup>*\<^sup>* S T" and inv: "sys_inv S" and idle: "\<forall>k. workers S k = Idle"
    and "clock (shared T) \<le> clock (shared S) + lease"
  shows "\<exists>new. accepted (shared T) = accepted (shared S) @ new \<and> lease_inv (clock (shared S) + lease) T new"
  using assms(1,4)
proof (induction rule: rtranclp_induct)
  case base
  have "lease_inv (clock (shared S) + lease) S []" using idle by (simp add: lease_inv_def handed_out_def)
  then show ?case by (intro exI[of _ "[]"]) simp
next
  case (step T U)
  from steps_progress[OF fresh_steps_are_steps[OF step.hyps(1)] inv] have T: "sys_inv T" by blast
  then have ok: "sinv (shared T)" by (simp add: sys_inv_def)
  have "clock (shared T) \<le> clock (shared U)"
    using step.hyps(2) step_free[OF _ ok] by (fastforce simp: fresh_step_def)
  with step.IH step.prems obtain new where
    "accepted (shared T) = accepted (shared S) @ new" "lease_inv (clock (shared S) + lease) T new" by fastforce
  from lease_inv_step[OF step.hyps(2) ok this step.prems] show ?case .
qed

lemma one_delivery:
  assumes "(fresh_step d status_of dead accepted)\<^sup>*\<^sup>* S T" and "sys_inv S" and "\<forall>k. workers S k = Idle"
    and "clock (shared T) \<le> clock (shared S) + lease"
  shows "(\<exists>new. accepted (shared T) = accepted (shared S) @ new \<and> distinct new) \<and>
    (\<forall>k l. k \<noteq> l \<longrightarrow> set (hand (workers T k)) \<inter> set (hand (workers T l)) = {})"
  using period_inv[OF assms] unfolding lease_inv_def by blast

end

end
