(* ===== verification/Deployment.thy ===== *)
theory Deployment
  imports Healthy_World Notifications Leases
begin

text \<open>
  The steps of a deployment over PostgreSQL: each of them is at most one call of the adapter, so what
  every call keeps every interleaving keeps. The clock, the locks, the order of the tables and the keys
  of the Redis heap are followed this way; the lease contract is interpreted on the adapter.
\<close>

section \<open>A step is at most one adapter call\<close>

text \<open>The calls a deployment makes: its worker marks rows \<open>Sent\<close> only, its producers insert new events.\<close>

fun deployment_call :: "'p adapter_call \<Rightarrow> bool" where
  "deployment_call (Call_update ids st) \<longleftrightarrow> st = Sent"
| "deployment_call (Call_insert e) \<longleftrightarrow> status e = Pending \<and> locked_until e = UNIX_EPOCH"
| "deployment_call (Call_wait ch) \<longleftrightarrow> False"
| "deployment_call _ \<longleftrightarrow> True"

definition one_call :: "('p, 'j) pg_client \<Rightarrow> 'p outbox_config \<Rightarrow> ('p, 'j) world \<Rightarrow> ('p, 'j) world \<Rightarrow> bool" where
  "one_call c cfg s t \<longleftrightarrow> (\<exists>call. deployment_call call \<and> t = after_call c cfg call s)"

lemma new_event_call: "deployment_call (Call_insert (new_event h ty p tok))"
  by (simp add: new_event_def Event_new_def)

lemma worker_is_call:
  fixes s :: "('p, 'j) world"
  assumes "worker_step (world_deployment c cfg b dlq moka rcfg met) (j, s) = (j', t)"
  shows "same_db s t \<or> t = after_call c cfg (Call_fetch (batch_size cfg)) s \<or>
    (\<exists>ids. t = after_call c cfg (Call_update ids Sent) s)"
proof -
  have noted: "same_db s u \<Longrightarrow> same_db s (emit_success (world_recorder met) ty u) \<and>
      same_db s (emit_error (world_recorder met) ty u)" for u :: "('p, 'j) world" and ty
    using world_emit(1,2) same_db_trans unfolding world_recorder_def by blast
  note heap = redis_frame_db[OF world_note_frames(1)] redis_frame_db[OF world_note_frames(2)]
  show ?thesis
  proof (cases j)
    case Idle
    with assms have "t = after_call c cfg (Call_fetch (batch_size cfg)) s"
      by (auto split: sum.splits prod.splits)
    then show ?thesis by blast
  next
    case (Batch n es ids)
    show ?thesis
    proof (cases es)
      case Nil
      with assms Batch have "t = s \<or> t = after_call c cfg (Call_update ids Sent) s"
        by (auto split: sum.splits prod.splits if_splits)
      then show ?thesis by (auto simp del: after_call.simps)
    next
      case (Cons e es')
      with assms Batch world_publisher_db[of b e s] show ?thesis by (auto split: sum.splits prod.splits)
    qed
  next
    case (Noting n e ok es ids)
    with assms noted heap[of dlq moka rcfg "eid e" s] show ?thesis
      by (cases ok) (auto split: sum.splits prod.splits)
  next
    case (Finished r)
    with assms show ?thesis by simp
  qed
qed

lemma step_is_call:
  fixes S T :: "(('p, 'j) world, 'p) system"
  assumes "sys_step (world_deployment c cfg b dlq moka rcfg met) S T"
  shows "same_db (shared S) (shared T) \<or> one_call c cfg (shared S) (shared T) \<or>
    (\<exists>n. shared T = world_sleep n (shared S))"
  using assms
proof (cases rule: sys_step.cases)
  case (work k j t)
  from worker_is_call[OF work(2)] have "same_db (shared S) t \<or> one_call c cfg (shared S) t"
    unfolding one_call_def by (metis deployment_call.simps(1,4))
  with work(1) show ?thesis by auto
next
  case (insert h ty p tok r t)
  then have "t = after_call c cfg (Call_insert (new_event h ty p tok)) (shared S)" by simp
  with new_event_call[of h ty p tok] insert(1) show ?thesis
    unfolding one_call_def by (simp del: after_call.simps deployment_call.simps) blast
next
  case (collect r t)
  then have "t = after_call c cfg Call_garbage (shared S)"
    by (simp add: collect_garbage_def GarbageCollector_new_def)
  with collect(1) show ?thesis
    unfolding one_call_def by (simp del: after_call.simps) (metis deployment_call.simps(5))
next
  case (reap hp r t)
  then show ?thesis using redis_frame_db[OF world_drain_frame[of dlq moka rcfg hp]] by simp
next
  case (quarantine r t)
  then have "t = after_call c cfg (Call_quarantine (drained_entries S)) (shared S)" by (simp add:)
  with quarantine(1) show ?thesis
    unfolding one_call_def by (simp del: after_call.simps) (metis deployment_call.simps(6))
next
  case (pass n)
  then show ?thesis by auto
qed simp_all

text \<open>
  So the notifications follow the deployment: for a worker that listens, whatever the rest of the
  deployment does is a step of \<open>wake_step\<close>, with the ping the trigger sends for it, and \<open>wake_inv\<close> holds
  in the middle of any interleaving.
\<close>

lemma deployment_wakes:
  fixes S T :: "(('p, 'j) world, 'p) system"
  assumes "sys_step (world_deployment c cfg b dlq moka rcfg met) S T" and "db M = shared S"
  shows "\<exists>M'. wake_step c cfg M M' \<and> db M' = shared T \<and> phase M' = phase M \<and> subscribed M' = subscribed M"
proof -
  have kept: ?thesis if "tables_kept (shared S) (shared T)"
    using wake_step.elsewhere[of M "shared T" c cfg] that assms(2)
    by (intro exI[of _ "M\<lparr> db := shared T \<rparr>"]) simp
  show ?thesis
    using step_is_call[OF assms(1)]
  proof (elim disjE exE)
    assume "one_call c cfg (shared S) (shared T)"
    then obtain call where call: "deployment_call call" "shared T = after_call c cfg call (db M)"
      using assms(2) by (auto simp: one_call_def)
    from call(1) have "\<not> waits call" by (cases call) auto
    from wake_step.others[OF this, of c cfg M] call(2) show ?thesis
      by (intro exI[of _ "M\<lparr> db := after_call c cfg call (db M), pings := ring c call M \<rparr>"])
        (simp del: after_call.simps)
  qed (rule kept, simp add: same_db_def tables_kept_def world_sleep_def)+
qed

lemma deployment_wakes_on:
  fixes S T :: "(('p, 'j) world, 'p) system"
  assumes "sys_steps (world_deployment c cfg b dlq moka rcfg met) S T" and "db M = shared S"
    and "batch_size cfg \<noteq> 0" and "wake_inv M"
  shows "\<exists>M'. wake_steps c cfg M M' \<and> db M' = shared T \<and> phase M' = phase M \<and> wake_inv M'"
  using assms(1)
proof (induction rule: rtranclp_induct)
  case base
  with assms show ?case by blast
next
  case (step T U)
  then obtain M' where M': "wake_steps c cfg M M'" "db M' = shared T" "phase M' = phase M" "wake_inv M'" by blast
  from deployment_wakes[OF step.hyps(2) M'(2)] obtain M'' where
    "wake_step c cfg M' M''" "db M'' = shared U" "phase M'' = phase M'" by blast
  with M' wake_step_inv[OF _ assms(3) M'(4)] show ?case by (metis rtranclp.rtrancl_into_rtrancl)
qed

section \<open>The clock and the locks\<close>

text \<open>A row that a fetch made by the time \<open>D\<close> may claim.\<close>

definition pg_free :: "int \<Rightarrow> ('j, 'x) pg_state_scheme \<Rightarrow> event_id \<Rightarrow> bool" where
  "pg_free D s i \<longleftrightarrow> (\<exists>r \<in> set (outbox_events s). eid r = i \<and> claimable D r)"

lemma pg_free_events: "outbox_events t = outbox_events s \<Longrightarrow> pg_free D t = pg_free D s"
  by (simp add: pg_free_def fun_eq_iff)

lemma call_clock: "\<not> waits call \<Longrightarrow> pg_now s \<le> pg_now (after_call c cfg call s)"
  using now_advance(1)[of s]
  by (cases call)
    (auto simp: call_effects sql_claim_def sql_update_status_def sql_delete_garbage_def sql_quarantine_def
      sql_insert_def Let_def simp del: after_call.simps split: sum.split)

lemma deployment_call_waits: "deployment_call call \<Longrightarrow> \<not> waits call"
  by (cases call) auto

lemma status_of_row: "pg_ok s \<Longrightarrow> r \<in> set (outbox_events s) \<Longrightarrow> pg_status s (eid r) = Some (status r)"
  by (auto simp: pg_ok_def pg_status_def row_status_Some)

lemma call_free:
  assumes "\<not> waits call" and "\<And>ids st. call = Call_update ids st \<Longrightarrow> st = Sent"
    and "\<And>l. call = Call_fetch l \<Longrightarrow> D \<le> pg_now s + minute * sint (lock_timeout_mins cfg)"
    and "\<And>e. call \<noteq> Call_insert e" and "pg_free D (after_call c cfg call s) i"
  shows "pg_free D s i"
proof (cases call)
  case (Call_fetch l)
  have "\<not> claimable D (claim_row (pg_now (advance s) + minute * sint (lock_timeout_mins cfg)) r)" for r :: "'b event"
    using assms(3)[OF Call_fetch] now_advance(1)[of s] by (simp add: claimable_def claim_row_def)
  with assms(5) Call_fetch show ?thesis
    by (auto simp: call_effects sql_claim_def pg_free_def Let_def simp del: after_call.simps split: if_splits)
next
  case (Call_update ids st)
  with assms(2,5) show ?thesis
    by (auto simp: call_effects sql_update_status_def pg_free_def claimable_def simp del: after_call.simps
        split: if_splits)
next
  case Call_garbage
  with assms(5) show ?thesis
    by (auto simp: call_effects sql_delete_garbage_def pg_free_def Let_def simp del: after_call.simps split: if_splits)
next
  case (Call_quarantine es)
  with assms(5) show ?thesis
    by (auto simp: call_effects sql_quarantine_def pg_free_def Let_def simp del: after_call.simps split: if_splits)
qed (use assms(1,4) in auto)

lemma insert_makes_free:
  assumes ok: "pg_ok s" and free: "pg_free D (after_call c cfg (Call_insert e) s) i"
  shows "pg_free D s i \<or> pg_status s i = None \<and> pg_status (after_call c cfg (Call_insert e) s) i \<noteq> None"
proof -
  obtain r where r: "r \<in> set (outbox_events (after_call c cfg (Call_insert e) s))" "eid r = i" "claimable D r"
    using free by (auto simp: pg_free_def)
  show ?thesis
  proof (cases "r \<in> set (outbox_events s)")
    case True
    with r show ?thesis by (auto simp: pg_free_def)
  next
    case False
    have "pg_status (after_call c cfg (Call_insert e) s) i \<noteq> None"
      using status_of_row[OF after_call_ok[OF ok] r(1)] r(2) by simp
    moreover have "pg_status s i = None"
      using False r(1,2)
      by (auto simp: call_effects sql_insert_def with_payload_def pg_status_def row_status_None
          simp del: after_call.simps split: sum.splits if_splits)
    ultimately show ?thesis by blast
  qed
qed

lemma fetch_claims_free:
  fixes s :: "('j, 'x) pg_state_scheme"
  assumes ok: "pg_ok s" and run: "pg_fetch_next_to_process c cfg l s = (Inr evs, t)"
    and D: "pg_now t \<le> D" "D \<le> pg_now s + minute * sint (lock_timeout_mins cfg)" and e: "e \<in> set evs"
  shows "pg_free D s (eid e) \<and> \<not> pg_free D t (eid e)"
proof
  have now: "pg_now t = pg_now (advance s)"
    by (rule pg_fetch_claim[OF run]) (auto simp: sql_claim_def Let_def)
  from fetched_eligible[OF ok run e] obtain r where
    "r \<in> set (outbox_events s)" "eid r = eid e" "claimable (pg_now (advance s)) r" by (auto simp: eligible_def)
  with claimable_mono D(1) show "pg_free D s (eid e)" unfolding pg_free_def now by blast
  let ?until = "pg_now (advance s) + minute * sint (lock_timeout_mins cfg)"
  have "\<not> claimable D (claim_row ?until r)" for r :: "'j event"
    using D(2) now_advance(1)[of s] by (simp add: claimable_def claim_row_def)
  with e show "\<not> pg_free D t (eid e)"
    unfolding pg_free_def fetch_exact(3)[OF ok run] by (auto split: if_splits)
qed

lemma same_db_free: "same_db s t \<Longrightarrow> pg_now t = pg_now s \<and> (\<forall>D. pg_free D t = pg_free D s)"
  by (simp add: same_db_def pg_free_def fun_eq_iff)

interpretation leases: lease_contract "world_deployment c cfg b dlq moka rcfg metrics_on"
    pg_status pg_dead pg_ok "published b" pg_free pg_now "minute * sint (lock_timeout_mins cfg)"
  for c :: "('p, 'j) pg_client" and cfg :: "'p outbox_config" and b :: "'p broker" and dlq moka metrics_on :: bool
    and rcfg :: redis_token_config
proof (intro lease_contract.intro lease_contract_axioms.intro sys.system_contract_axioms,
    unfold world_deployment_simps PostgresOutbox_simps PostgresWriter_simps, goal_cases)
  case (1 s l evs t D e)
  then show ?case by (rule fetch_claims_free)
next
  case (2 s l r t D i)
  then have "t = after_call c cfg (Call_fetch l) s" by simp
  with call_clock[of "Call_fetch l" s c cfg] call_free[of "Call_fetch l" D s cfg c i] show ?case
    by (simp del: after_call.simps)
next
  case (3 s ids r t D i)
  then have "t = after_call c cfg (Call_update ids Sent) s" by simp
  with call_clock[of "Call_update ids Sent" s c cfg] call_free[of "Call_update ids Sent" D s cfg c i] show ?case
    by (simp del: after_call.simps)
next
  case (4 s r t D i)
  then have "t = after_call c cfg Call_garbage s" by simp
  with call_clock[of Call_garbage s c cfg] call_free[of Call_garbage D s cfg c i] show ?case
    by (simp del: after_call.simps)
next
  case (5 s es r t D i)
  then have "t = after_call c cfg (Call_quarantine es) s" by simp
  with call_clock[of "Call_quarantine es" s c cfg] call_free[of "Call_quarantine es" D s cfg c i] show ?case
    by (simp del: after_call.simps)
next
  case (6 s e r t D i)
  then have "t = after_call c cfg (Call_insert e) s" by simp
  with call_clock[of "Call_insert e" s c cfg] insert_makes_free[OF 6(1), of D c cfg e i] show ?case
    by (simp del: after_call.simps)
next
  case 7
  show ?case by (rule publish_steps_keep_mono[OF world_batch_frame[OF world_publisher_db] same_db_free])
next
  case 8
  from same_db_free[OF redis_frame_db[OF world_drain_frame[OF 8]]] show ?case by simp
next
  case (9 s n D)
  show ?case by (simp add: world_sleep_def pg_free_def fun_eq_iff)
qed

section \<open>The order of the tables\<close>

text \<open>
  No lock reaches further than the lock timeout, and no stored row has a dead letter: every step keeps
  this, as long as new ids are new and the clock is past the epoch, the lock of a new event.
\<close>

lemma orderly_advance:
  assumes "orderly cfg s"
  shows "orderly cfg (advance s)"
  using assms now_advance(1)[of s] unfolding orderly_def by fastforce

lemma call_orderly:
  fixes s :: "('p, 'j) world"
  assumes "deployment_call call" and ord: "orderly cfg s" and "0 \<le> pg_now s"
    and mins: "0 \<le> sint (lock_timeout_mins cfg)"
    and fresh: "\<And>e. call = Call_insert e \<Longrightarrow> pg_status s (eid e) = None \<Longrightarrow>
      pg_status (after_call c cfg call s) (eid e) \<noteq> None \<Longrightarrow> eid e \<notin> pg_dead s"
    and ok: "pg_ok s"
  shows "orderly cfg (after_call c cfg call s)"
proof -
  note adv = orderly_advance[OF ord]
  have rows: "locked_until r \<le> pg_now (advance s) + minute * sint (lock_timeout_mins cfg)"
    if "r \<in> set (outbox_events s)" for r using adv that by (simp add: orderly_def)
  show ?thesis
  proof (cases call)
    case (Call_fetch l)
    have "orderly cfg (snd (sql_claim (unat l) (sint (lock_timeout_mins cfg)) (next_env s) (advance s)))"
      by (rule orderly_rows[OF adv]) (auto simp: sql_claim_def Let_def claim_row_def rows split: if_splits)
    with adv Call_fetch show ?thesis by (simp add: call_effects del: after_call.simps)
  next
    case (Call_update ids st)
    have "orderly cfg (snd (sql_update_status st ids (next_env s) (advance s)))"
      by (rule orderly_rows[OF adv]) (auto simp: sql_update_status_def rows)
    with adv Call_update show ?thesis by (simp add: call_effects del: after_call.simps)
  next
    case Call_garbage
    have "orderly cfg (snd (sql_delete_garbage (sint (retention_days cfg)) (next_env s) (advance s)))"
      by (rule orderly_rows[OF adv]) (auto simp: sql_delete_garbage_def Let_def rows)
    with adv Call_garbage show ?thesis by (simp add: call_effects del: after_call.simps)
  next
    case (Call_quarantine es)
    have "orderly cfg (snd (sql_quarantine dup ids ns errs (next_env s) (advance s)))" for dup ids ns errs
      using adv by (fastforce simp: sql_quarantine_def Let_def orderly_def dead_of_def)
    with adv ord Call_quarantine show ?thesis by (simp add: call_effects del: after_call.simps)
  next
    case (Call_insert e)
    let ?t = "after_call c cfg call s"
    have lock: "locked_until e = 0" using assms(1) Call_insert by (simp add: UNIX_EPOCH_def)
    have "?t = s \<or> ?t = advance s \<or>
      (\<exists>p. ?t = (advance s)\<lparr> outbox_events := outbox_events s @ [with_payload p e] \<rparr> \<and>
        eid e \<notin> eid ` set (outbox_events s))"
      unfolding Call_insert call_effects sql_insert_def
      by (cases "to_value c (as_value (payload e))") (auto simp: with_payload_def)
    then consider (old) "?t = s \<or> ?t = advance s"
      | (new) p where "?t = (advance s)\<lparr> outbox_events := outbox_events s @ [with_payload p e] \<rparr>"
        and "eid e \<notin> eid ` set (outbox_events s)" by blast
    then show ?thesis
    proof cases
      case old
      with adv ord show ?thesis by auto
    next
      case new
      have "pg_status s (eid e) = None" using new(2) by (simp add: pg_status_def row_status_None)
      moreover have "pg_status ?t (eid e) \<noteq> None"
        unfolding new(1) by (auto simp: pg_status_def row_status_None with_payload_def)
      ultimately have "eid e \<notin> pg_dead s" by (rule fresh[OF Call_insert])
      moreover have "0 \<le> minute * sint (lock_timeout_mins cfg)" using mins by (simp add: minute_def)
      ultimately show ?thesis
        using adv assms(3) now_advance(1)[of s] unfolding new(1)
        by (auto simp: orderly_def pg_dead_def with_payload_def lock)
    qed
  next
    case (Call_wait ch)
    with assms(1) show ?thesis by simp
  qed
qed

section \<open>The keys of the heap\<close>

text \<open>
  Every member of the heap's sorted set is the text of an id, with a positive count. This survives every
  fault of Redis and every count; together with counts below \<open>2 ^ 53\<close> it is the heap's invariant.
\<close>

definition heap_keys :: "redis_token_config \<Rightarrow> ('p, 'j) world \<Rightarrow> bool" where
  "heap_keys rcfg s \<longleftrightarrow> (\<forall>m n. world_zset s (heap_key rcfg) m = Some n \<longrightarrow>
     (\<exists>u. m = uuid_to_string world_text u) \<and> 0 < n)"

lemma heap_keys_cong: "world_zset t = world_zset s \<Longrightarrow> heap_keys rcfg t = heap_keys rcfg s"
  by (simp add: heap_keys_def)

lemma heap_keys_hinv:
  "redis_hinv world_text (world_provider moka rcfg) world_zset s \<longleftrightarrow>
     heap_keys rcfg s \<and> (\<forall>m n. world_zset s (heap_key rcfg) m = Some n \<longrightarrow> n \<le> 2 ^ 53)"
  by (auto simp: redis_hinv_def heap_keys_def)

lemma heap_keys_counts:
  assumes "heap_keys rcfg s" and "\<forall>i. redis_counts world_text (world_provider moka rcfg) world_zset s i \<le> 2 ^ 53"
  shows "redis_hinv world_text (world_provider moka rcfg) world_zset s"
  unfolding heap_keys_hinv
proof (intro conjI allI impI)
  fix m n assume m: "world_zset s (heap_key rcfg) m = Some n"
  with assms(1) obtain u where "m = uuid_to_string world_text u" by (auto simp: heap_keys_def)
  with m have "redis_counts world_text (world_provider moka rcfg) world_zset s (EventId_load u) = n"
    by (simp add: redis_counts_def)
  with assms(2) show "n \<le> 2 ^ 53" by metis
qed (fact assms(1))

lemma keeps_infrastructure: "keeps P a \<Longrightarrow> keeps P (infrastructure_error a)"
  unfolding keeps_def infrastructure_error_def by (force split: prod.split sum.split)

lemma keeps_redis_cmd:
  "keeps P body \<Longrightarrow> (\<And>u x. P u \<Longrightarrow> P (u\<lparr> redis_script := x \<rparr>)) \<Longrightarrow> keeps P (redis_cmd body)"
  unfolding keeps_def redis_cmd_def Let_def by (auto split: list.split option.split bool.split)

lemmas keeps_calls = keeps_and_then keeps_infrastructure

lemma heap_keys_script: "heap_keys rcfg u \<Longrightarrow> heap_keys rcfg (u\<lparr> redis_script := x \<rparr>)"
  by (simp add: heap_keys_def)

lemma heap_cmds_keep [simp]:
  "keeps (heap_keys rcfg) (world_zincrby (heap_key rcfg) 1 (uuid_to_string world_text u))"
  "keeps (heap_keys rcfg) (world_zrem (heap_key rcfg) m)"
  "keeps (heap_keys rcfg) (world_zrangebyscore (heap_key rcfg) lo)"
  "keeps (heap_keys rcfg) (world_zremrangebyscore (heap_key rcfg) lo)"
  unfolding world_zincrby_def world_zrem_def world_zrangebyscore_def world_zremrangebyscore_def
  by (rule keeps_redis_cmd[where P = "heap_keys rcfg", OF _ heap_keys_script];
      auto simp: keeps_def on_zset_def Let_def heap_keys_def delete_conv'
        map_of_filter_clearjunk[of "\<lambda>c. c < lo"] split: option.splits if_splits)+

lemma heap_script_keeps [simp]: "keeps (heap_keys rcfg) (drain_script world_conn (heap_key rcfg) lo)"
  by (auto simp: drain_script_def intro!: keeps_calls)

lemma heap_calls_keep:
  "keeps (heap_keys rcfg) (redis_record_failure world_text (world_provider moka rcfg) i)"
  "keeps (heap_keys rcfg) (redis_record_success world_text (world_provider moka rcfg) i)"
  "keeps (heap_keys rcfg) (redis_drain_exceeded world_text (world_provider moka rcfg) thr)"
  by (auto simp: redis_record_failure_def redis_record_success_def redis_drain_exceeded_def
      intro!: keeps_calls split: sum.split)

lemma call_zset:
  fixes s :: "('p, 'j) world"
  assumes "deployment_call call"
  shows "world_zset (after_call c cfg call s) = world_zset s"
proof -
  have events: "world_zset (u\<lparr> outbox_events := x \<rparr>) = world_zset u"
      "world_zset (u\<lparr> outbox_dead_letters := y \<rparr>) = world_zset u" "world_zset (advance u) = world_zset u"
    for u :: "('p, 'j) world" and x y
    by (simp_all add: advance_def world_zset_def zset_list_def fun_eq_iff)
  show ?thesis
    using assms
    by (cases call)
      (auto simp: call_effects sql_claim_def sql_update_status_def sql_delete_garbage_def sql_quarantine_def
        sql_insert_def Let_def events simp del: after_call.simps split: sum.split)
qed

lemma worker_heap_keys:
  fixes s :: "('p, 'j) world"
  assumes run: "worker_step (world_deployment c cfg b True moka rcfg met) (j, s) = (j', t)" and "heap_keys rcfg s"
  shows "heap_keys rcfg t"
proof -
  have noted: "keeps (heap_keys rcfg) (note_success (world_heap True moka rcfg) i)"
    "keeps (heap_keys rcfg) (note_failure (world_heap True moka rcfg) i)" for i
    by (simp_all add: world_heap_def heap_calls_keep)
  have emitted: "heap_keys rcfg u \<Longrightarrow> heap_keys rcfg (emit_success (world_recorder met) ty u)"
    "heap_keys rcfg u \<Longrightarrow> heap_keys rcfg (emit_error (world_recorder met) ty u)" for u :: "('p, 'j) world" and ty
    using heap_keys_cong[OF emit_zset(1)] heap_keys_cong[OF emit_zset(2)] by blast+
  show ?thesis
  proof (cases j)
    case Idle
    obtain r u where f: "pg_fetch_next_to_process c cfg (batch_size cfg) s = (r, u)" by fastforce
    with run Idle have "t = u" by (auto split: sum.splits)
    with heap_keys_cong[OF pg_zset(1)[OF f]] assms(2) show ?thesis by simp
  next
    case (Batch n es ids)
    obtain r u where u: "pg_update_status ids Sent s = (r, u)" by fastforce
    obtain e r' u' where p: "es \<noteq> [] \<Longrightarrow> e = hd es \<and> publish (world_publisher b) e s = (r', u')" by fastforce
    from run Batch u p have "t = u \<or> t = s \<or> es \<noteq> [] \<and> t = u'"
      by (cases es) (auto split: sum.splits if_splits)
    with heap_keys_cong[OF pg_zset(2)[OF u]] heap_keys_cong[OF publish_zset] p assms(2) show ?thesis by metis
  next
    case (Noting n e ok es ids)
    obtain r u where n: "note_success (world_heap True moka rcfg) (eid e) s = (r, u)" by fastforce
    obtain r' u' where f: "note_failure (world_heap True moka rcfg) (eid e) s = (r', u')" by fastforce
    have "heap_keys rcfg u" "heap_keys rcfg u'"
      using keeps_run[OF noted(1) n assms(2)] keeps_run[OF noted(2) f assms(2)] .
    with run Noting n f emitted show ?thesis by (cases ok) (auto split: sum.splits)
  qed (use run assms(2) in simp)
qed

lemma step_heap_keys:
  fixes S T :: "(('p, 'j) world, 'p) system"
  assumes "sys_step (world_deployment c cfg b True moka rcfg met) S T" and keys: "heap_keys rcfg (shared S)"
  shows "heap_keys rcfg (shared T)"
  using assms(1)
proof (cases rule: sys_step.cases)
  case (work k j t)
  with worker_heap_keys[OF work(2) keys] show ?thesis by simp
next
  case (insert h ty p tok r t)
  then have "t = after_call c cfg (Call_insert (new_event h ty p tok)) (shared S)" by simp
  then have "world_zset t = world_zset (shared S)" using call_zset[OF new_event_call] by metis
  with heap_keys_cong insert(1) keys show ?thesis by auto
next
  case (collect r t)
  then have "t = after_call c cfg Call_garbage (shared S)" by (simp add: collect_garbage_def GarbageCollector_new_def)
  then have "world_zset t = world_zset (shared S)" using call_zset[of Call_garbage] by (metis deployment_call.simps(5))
  with heap_keys_cong collect(1) keys show ?thesis by auto
next
  case (reap hp r t)
  with heap_calls_keep(3)[THEN keeps_run, OF _ keys] show ?thesis by (fastforce simp: world_heap_def)
next
  case (quarantine r t)
  then have "world_zset t = world_zset (shared S)" using pg_quarantine_zset by simp
  with heap_keys_cong quarantine(1) keys show ?thesis by auto
next
  case (pass n)
  with keys heap_keys_cong[OF sleep_views(1), of rcfg n "shared S"] show ?thesis by simp
qed (use keys in simp_all)

section \<open>Along a run\<close>

abbreviation world_fresh_steps :: "('p, 'j) pg_client \<Rightarrow> 'p outbox_config \<Rightarrow> 'p broker \<Rightarrow> bool \<Rightarrow> bool \<Rightarrow>
    redis_token_config \<Rightarrow> bool \<Rightarrow> (('p, 'j) world, 'p) system \<Rightarrow> (('p, 'j) world, 'p) system \<Rightarrow> bool" where
  "world_fresh_steps c cfg b dlq moka rcfg met \<equiv>
     (fresh_step (world_deployment c cfg b dlq moka rcfg met) pg_status pg_dead (published b))\<^sup>*\<^sup>*"

lemma fresh_step_orderly:
  fixes S T :: "(('p, 'j) world, 'p) system"
  assumes step: "fresh_step (world_deployment c cfg b dlq moka rcfg met) pg_status pg_dead (published b) S T"
    and ok: "pg_ok (shared S)" and ord: "orderly cfg (shared S)" and now: "0 \<le> pg_now (shared S)"
    and mins: "0 \<le> sint (lock_timeout_mins cfg)"
  shows "orderly cfg (shared T) \<and> 0 \<le> pg_now (shared T)"
proof -
  have sys: "sys_step (world_deployment c cfg b dlq moka rcfg met) S T"
    and fresh: "fresh_ids pg_status pg_dead (published b) S T" using step by (simp_all add: fresh_step_def)
  have "0 \<le> pg_now (shared T)" using leases.step_free[OF sys ok] now by force
  moreover have "orderly cfg (shared T)"
    using step_is_call[OF sys]
  proof (elim disjE exE)
    assume "one_call c cfg (shared S) (shared T)"
    then obtain call where call: "deployment_call call" "shared T = after_call c cfg call (shared S)"
      by (auto simp: one_call_def)
    show ?thesis
      unfolding call(2)
      by (rule call_orderly[OF call(1) ord now mins _ ok]) (use fresh call(2) in \<open>auto simp: fresh_ids_def\<close>)
  qed (use ord orderly_same_db sleep_views(3) in \<open>auto\<close>)
  ultimately show ?thesis by blast
qed

lemma run_orderly:
  fixes S T :: "(('p, 'j) world, 'p) system"
  assumes "world_fresh_steps c cfg b True moka rcfg met S T"
    and inv: "system_contract.sys_inv pg_status pg_ok (published b) S"
    and start: "orderly cfg (shared S)" "heap_keys rcfg (shared S)" "0 \<le> pg_now (shared S)"
    and mins: "0 \<le> sint (lock_timeout_mins cfg)"
  shows "orderly cfg (shared T) \<and> heap_keys rcfg (shared T) \<and> 0 \<le> pg_now (shared T)"
  using assms(1)
proof (induction rule: rtranclp_induct)
  case base
  with start show ?case by simp
next
  case (step T U)
  have "sys_steps (world_deployment c cfg b True moka rcfg met) S T"
    using fresh_steps_are_steps[OF step.hyps(1)] .
  from sys.steps_progress[OF this inv] have "pg_ok (shared T)" by (simp add: sys.sys_inv_def)
  with fresh_step_orderly[OF step.hyps(2)] step_heap_keys step.hyps(2) step.IH mins show ?case
    unfolding fresh_step_def by blast
qed

text \<open>The declared keys: no two active rows share an id or a token.\<close>

lemma schema_same_db: "same_db s t \<Longrightarrow> schema_ok t = schema_ok s"
  by (simp add: same_db_def schema_ok_def)

lemma run_schema:
  fixes S T :: "(('p, 'j) world, 'p) system"
  assumes "sys_steps (world_deployment c cfg b dlq moka rcfg met) S T" and "schema_ok (shared S)"
  shows "schema_ok (shared T)"
  using assms
proof (induction rule: rtranclp_induct)
  case (step T U)
  have "schema_ok (world_sleep n s) = schema_ok s" for n and s :: "('p, 'j) world"
    by (simp add: world_sleep_def schema_ok_def)
  with step_is_call[OF step.hyps(2)] step schema_same_db show ?case
    unfolding one_call_def by (metis schema_call)
qed simp

text \<open>What a worker does is fresh: its calls create no row.\<close>

lemma worker_creates_nothing:
  fixes s :: "('p, 'j) world"
  assumes ok: "pg_ok s" and run: "worker_step (world_deployment c cfg b dlq moka rcfg met) (j, s) = (j', t)"
  shows "pg_ok t \<and> (pg_status s i = None \<longrightarrow> pg_status t i = None)"
  using worker_is_call[OF run]
proof (elim disjE exE)
  assume "same_db s t"
  with ok show ?thesis by (simp add: same_db_def pg_ok_def pg_status_def)
next
  assume t: "t = after_call c cfg (Call_fetch (batch_size cfg)) s"
  then have "pg_status s i = None \<longrightarrow> pg_status t i = None"
    by (auto simp: call_effects sql_claim_def Let_def pg_status_def row_status_None image_iff simp del: after_call.simps)
  with after_call_ok[OF ok] t show ?thesis by blast
next
  fix ids assume t: "t = after_call c cfg (Call_update ids Sent) s"
  then have "pg_status s i = None \<longrightarrow> pg_status t i = None"
    by (auto simp: call_effects sql_update_status_def pg_status_def row_status_None image_iff simp del: after_call.simps)
  with after_call_ok[OF ok] t show ?thesis by blast
qed

lemma runs_are_fresh:
  fixes S :: "(('p, 'j) world, 'p) system"
  assumes ok: "pg_ok (shared S)"
    and "runs (world_deployment c cfg b dlq moka rcfg met) (workers S k, shared S) (j, t)"
  shows "world_fresh_steps c cfg b dlq moka rcfg met S (S\<lparr> shared := t, workers := (workers S)(k := j) \<rparr>)"
proof -
  let ?d = "world_deployment c cfg b dlq moka rcfg met"
  obtain n where "(worker_step ?d ^^ n) (workers S k, shared S) = (j, t)"
    using assms(2) unfolding runs_def by blast
  then have "world_fresh_steps c cfg b dlq moka rcfg met S (S\<lparr> shared := t, workers := (workers S)(k := j) \<rparr>) \<and> pg_ok t"
  proof (induction n arbitrary: j t)
    case 0
    with ok show ?case by (auto simp: fun_upd_idem)
  next
    case (Suc n)
    obtain j' t' where x: "(worker_step ?d ^^ n) (workers S k, shared S) = (j', t')" by fastforce
    let ?U = "S\<lparr> shared := t', workers := (workers S)(k := j') \<rparr>"
    have w: "worker_step ?d (j', t') = (j, t)" using Suc.prems x by simp
    then have "worker_step ?d (workers ?U k, shared ?U) = (j, t)" by simp
    from sys_step.work[OF this] have
      sys: "sys_step ?d ?U (S\<lparr> shared := t, workers := (workers S)(k := j) \<rparr>)" by simp
    have "pg_ok t'" using Suc.IH[OF x] ..
    then have created: "pg_ok t" "\<And>i. pg_status t' i = None \<Longrightarrow> pg_status t i = None"
      using worker_creates_nothing[OF _ w] by blast+
    then have "fresh_ids pg_status pg_dead (published b) ?U (S\<lparr> shared := t, workers := (workers S)(k := j) \<rparr>)"
      by (auto simp: fresh_ids_def)
    with sys have "fresh_step ?d pg_status pg_dead (published b) ?U (S\<lparr> shared := t, workers := (workers S)(k := j) \<rparr>)"
      by (simp add: fresh_step_def)
    with Suc.IH[OF x] created(1) show ?case by (meson rtranclp.rtrancl_into_rtrancl)
  qed
  then show ?thesis ..
qed

end
