(* ===== verification/Example_Properties.thy ===== *)
theory Example_Properties
  imports Settling_Properties Deployment Example_Programs
begin

text \<open>The example programs, run to their end in the reference environment.\<close>

section \<open>The deduplication examples\<close>

text \<open>
  C38. The deduplication example enables every feature of \<^verbatim>\<open>outbox-redis\<close>, and with it the \<open>dlq\<close>
  feature of \<^verbatim>\<open>outbox-core\<close>; its builder is given no heap, so its \<open>main\<close> never returns \<open>Ok\<close>: when it
  can connect to PostgreSQL and Redis it ends with a configuration error before any request, whatever
  the world.
\<close>
theorem deduplication_example_never_starts:
  "fst (deduplication_program True moka libs c tx rx h1 h2 pause wait s) \<noteq> Return (Inr ()) \<and>
   deduplication_main True storage tx writer provider rx h1 h2 pause s =
     (Return (Inl (ConfigError ''Dlq heap config is missing'')), None, s)"
proof -
  have stuck: "deduplication_main True st tx' w ip rx' h h' p' u =
      (Return (Inl (ConfigError ''Dlq heap config is missing'')), None, u)" for st tx' w ip rx' h h' p' u
    by (simp add: deduplication_main_def example_manager_def build_def set_storage_def set_publisher_def
        set_config_def set_shutdown_rx_def Builder_new_def Builder_default_def)
  show ?thesis by (auto simp: stuck deduplication_program_def split: sum.split prod.split)
qed

text \<open>Everything the example connects to is there.\<close>

definition world_libs :: "(('p, 'j) world, unit) example_libs" where
  "world_libs =
     \<lparr> pool_connect = (\<lambda>url s. (Inr (), s)), redis_lib = world_lib,
       shutdown_send = (\<lambda>s. (Inr (), s\<lparr> stop_flag := True \<rparr>)) \<rparr>"

lemma insert_without_token:
  assumes "pg_script s = []" and "to_value c (as_value (payload e)) = Inr j"
    and "eid e \<notin> eid ` set (outbox_events s)" and "idempotency_token e = None"
  shows "pg_insert_event c e s =
    (Inr (), s\<lparr> outbox_events := outbox_events s @ [with_payload (Payload j) e] \<rparr>)"
  using assms by (simp add: pg_insert_event_def database_error_def run_stmt_def next_env_def quiet_env_def
      advance_quiet sql_insert_def with_payload_def)

abbreviation order_created :: "host \<Rightarrow> my_event event" where
  "order_created h \<equiv> Event_new (new_v4 h) (now_utc h) (EventType ''OrderCreated'') (Payload (HiOutbox ''Hi!'')) None"

text \<open>
  The in-memory example passes the same token twice under the strategy \<open>None\<close>: both requests are stored,
  neither row has a token, and its deduplication branch is never taken.
\<close>
theorem in_memory_example_stores_both:
  fixes s :: "(my_event, 'j) world"
  assumes quiet: "pg_script s = []" and ids: "new_v4 h1 \<noteq> new_v4 h2"
    and new: "EventId (new_v4 h1) \<notin> eid ` set (outbox_events s)" "EventId (new_v4 h2) \<notin> eid ` set (outbox_events s)"
    and codec: "to_value c (HiOutbox ''Hi!'') = Inr j"
  shows "in_memory_program False world_libs c world_tx world_rx h1 h2 (\<lambda>x. x) wait s =
    shut_down world_libs wait (s\<lparr> outbox_events := outbox_events s @
      [with_payload (Payload j) (order_created h1), with_payload (Payload j) (order_created h2)] \<rparr>)"
proof -
  have strat: "idempotency_strategy (sv_config (OutboxService_new w in_memory_config)) = NoToken"
    "sv_writer (OutboxService_new w in_memory_config) = w" for w :: "((my_event, 'j) world, my_event) outbox_writer"
    by (simp_all add: OutboxService_new_def in_memory_config_def)
  have e: "eid (order_created h) = EventId (new_v4 h)" "idempotency_token (order_created h) = None"
    "as_value (payload (order_created h)) = HiOutbox ''Hi!''" for h
    by (simp_all add: Event_new_def EventId_default_def)
  let ?t = "s\<lparr> outbox_events := outbox_events s @ [with_payload (Payload j) (order_created h1)] \<rparr>"
  have first: "pg_insert_event c (order_created h1) s = (Inr (), ?t)"
    using assms by (intro insert_without_token) (simp_all add: e)
  have "pg_insert_event c (order_created h2) ?t = (Inr (), ?t\<lparr> outbox_events := outbox_events ?t @
      [with_payload (Payload j) (order_created h2)] \<rparr>)"
    using assms by (intro insert_without_token) (auto simp: with_payload_def e)
  with first show ?thesis
    by (simp add: in_memory_program_def world_libs_def in_memory_main_def example_manager_without_dlq
        request_twice_def no_token_add_event[OF strat(1)] strat(2))
qed

section \<open>The DLQ example\<close>

text \<open>
  The four minutes the example waits, as far as its manager and its reaper are concerned: a poll every
  two seconds, as its configuration has it, and a tick of the reaper. A claimed event is out of reach for
  a minute, so a refused one is attempted once a minute and not at every poll.
\<close>

definition demo_minutes :: "(demo_event, 'j) pg_client \<Rightarrow> bool \<Rightarrow> bool \<Rightarrow> (demo_event, 'j) world \<Rightarrow>
    (demo_event, 'j) world" where
  "demo_minutes c moka met t =
     (case manager_run (manager_of c dlq_config Flaky_channel moka dlq_redis_config) (world_recorder met)
         world_sleep (polls_after (replicate 120 2)) t of
        Return (Some (None, v)) \<Rightarrow> dlq_tick (reaper_of c dlq_config moka dlq_redis_config) v
      | _ \<Rightarrow> t)"

definition demo_blocks :: "nat list list" where
  "demo_blocks = [replicate 31 2, replicate 31 2, replicate 58 2]"

lemma demo_blocks:
  "concat demo_blocks = replicate 120 2" "\<forall>ds \<in> set demo_blocks. lock_secs dlq_config \<le> sum_list ds"
  "demo_blocks \<noteq> []" "unat (dlq_threshold dlq_config) \<le> length demo_blocks"
  by (simp_all add: demo_blocks_def replicate_add[symmetric] sum_list_replicate lock_secs_def dlq_config_def)

lemma dlq_example_manager_runs:
  "dlq_example_manager (PostgresOutbox c dlq_config) (FlakyPublisher_new world_tx)
     (RedisProvider_heap world_text (world_provider moka dlq_redis_config)) world_rx =
   Inr (manager_of c dlq_config Flaky_channel moka dlq_redis_config)"
  by (simp add: dlq_example_manager_def build_def set_storage_def set_publisher_def set_config_def
      set_shutdown_rx_def set_dlq_heap_def)

abbreviation good_ping :: "host \<Rightarrow> demo_event event" where
  "good_ping h \<equiv> Event_new (new_v4 h) (now_utc h) (EventType ''GoodPing'') (Payload (Ping ''hello'')) None"

abbreviation cursed_ping :: "host \<Rightarrow> demo_event event" where
  "cursed_ping h \<equiv> Event_new (new_v4 h) (now_utc h) (EventType ''CursedPing'') (Payload (Ping ''doom'')) None"

lemma ping_views [simp]:
  "eid (good_ping h) = EventId (new_v4 h)" "eid (cursed_ping h) = EventId (new_v4 h)"
  "idempotency_token (good_ping h) = None" "idempotency_token (cursed_ping h) = None"
  "status (good_ping h) = Pending" "status (cursed_ping h) = Pending"
  "locked_until (good_ping h) = 0" "locked_until (cursed_ping h) = 0"
  "as_value (payload (good_ping h)) = Ping ''hello''" "as_value (payload (cursed_ping h)) = Ping ''doom''"
  "event_type (good_ping h) = EventType ''GoodPing''" "event_type (cursed_ping h) = EventType ''CursedPing''"
  by (simp_all add: Event_new_def EventId_default_def UNIX_EPOCH_def)

text \<open>Both requests of the example store their event.\<close>

lemma dlq_requests:
  fixes s :: "(demo_event, 'j) world"
  assumes "pg_script s = []" and "new_v4 h1 \<noteq> new_v4 h2"
    and "EventId (new_v4 h1) \<notin> eid ` set (outbox_events s)" "EventId (new_v4 h2) \<notin> eid ` set (outbox_events s)"
    and "to_value c (Ping ''hello'') = Inr j1" and "to_value c (Ping ''doom'') = Inr j2"
  shows "dlq_main (PostgresOutbox c dlq_config) world_tx
      (RedisProvider_heap world_text (world_provider moka dlq_redis_config)) (PostgresWriter c) world_rx h1 h2
      (\<lambda>x. x) s =
    (Return (Inr ()), Some (Return (Inr ())), s\<lparr> outbox_events := outbox_events s @
      [with_payload (Payload j1) (good_ping h1), with_payload (Payload j2) (cursed_ping h2)] \<rparr>)"
proof -
  have strat: "idempotency_strategy (sv_config (OutboxService_new w dlq_config)) = NoToken"
    "sv_writer (OutboxService_new w dlq_config) = w" for w :: "((demo_event, 'j) world, demo_event) outbox_writer"
    by (simp_all add: OutboxService_new_def dlq_config_def)
  let ?t = "s\<lparr> outbox_events := outbox_events s @ [with_payload (Payload j1) (good_ping h1)] \<rparr>"
  have first: "pg_insert_event c (good_ping h1) s = (Inr (), ?t)"
    using assms by (intro insert_without_token) simp_all
  have "pg_insert_event c (cursed_ping h2) ?t = (Inr (), ?t\<lparr> outbox_events := outbox_events ?t @
      [with_payload (Payload j2) (cursed_ping h2)] \<rparr>)"
    using assms by (intro insert_without_token) (auto simp: with_payload_def)
  with first show ?thesis
    by (simp add: dlq_main_def dlq_example_manager_runs request_twice_def no_token_add_event[OF strat(1)] strat(2))
qed

text \<open>The world between the requests and the wait.\<close>

lemma dlq_rows:
  fixes s :: "(demo_event, 'j) world"
  assumes ok: "pg_ok s" and healthy: "world_healthy c Flaky_channel True dlq_redis_config s"
    and ord: "orderly dlq_config s" and heap: "heap_ok moka dlq_redis_config s" and now: "0 \<le> pg_now s"
    and ids: "new_v4 h1 \<noteq> new_v4 h2" "EventId (new_v4 h1) \<notin> eid ` set (outbox_events s) \<union> pg_dead s"
      "EventId (new_v4 h2) \<notin> eid ` set (outbox_events s) \<union> pg_dead s"
    and codec: "from_value c j1 = Inr (Ping ''hello'')" "from_value c j2 = Inr (Ping ''doom'')"
  defines "t \<equiv> s\<lparr> outbox_events := outbox_events s @
      [with_payload (Payload j1) (good_ping h1), with_payload (Payload j2) (cursed_ping h2)] \<rparr>"
  shows "pg_ok t" and "world_healthy c Flaky_channel True dlq_redis_config t" and "orderly dlq_config t"
    and "heap_ok moka dlq_redis_config t" and "failures moka dlq_redis_config t = failures moka dlq_redis_config s"
    and "EventId (new_v4 h1) \<in> waiting t - pg_refused c (refuses Flaky_channel) t"
    and "EventId (new_v4 h2) \<in> waiting t \<inter> pg_refused c (refuses Flaky_channel) t"
proof -
  let ?r1 = "with_payload (Payload j1) (good_ping h1)" and ?r2 = "with_payload (Payload j2) (cursed_ping h2)"
  have rows: "outbox_events t = outbox_events s @ [?r1, ?r2]" by (simp add: t_def)
  show ok_t: "pg_ok t" using ok ids by (auto simp: pg_ok_def t_def with_payload_def)
  have "decodable c t = decodable c s" using codec by (auto simp: decodable_def t_def with_payload_def)
  from world_healthy_events[OF this[unfolded t_def]] healthy
  show "world_healthy c Flaky_channel True dlq_redis_config t" unfolding t_def by blast
  show "orderly dlq_config t"
    using ord ids now by (auto simp: orderly_def t_def with_payload_def pg_dead_def dlq_config_def minute_def)
  have "world_zset t = world_zset s" by (simp add: t_def world_zset_def zset_list_def fun_eq_iff)
  with redis_views_cong[OF this] heap
  show "heap_ok moka dlq_redis_config t" "failures moka dlq_redis_config t = failures moka dlq_redis_config s"
    by blast+
  have member: "?r1 \<in> set (outbox_events t)" "?r2 \<in> set (outbox_events t)" by (simp_all add: rows)
  have wait: "EventId (new_v4 h1) \<in> waiting t" "EventId (new_v4 h2) \<in> waiting t"
    using status_of_row[OF ok_t member(1)] status_of_row[OF ok_t member(2)] by (simp_all add: waiting_def with_payload_def)
  have only: "{r \<in> set (outbox_events t). eid r = EventId (new_v4 h1)} = {?r1}"
    "{r \<in> set (outbox_events t). eid r = EventId (new_v4 h2)} = {?r2}"
    using ids by (auto simp: rows image_iff) (simp_all add: with_payload_def)
  have "EventId (new_v4 h1) \<notin> pg_refused c (refuses Flaky_channel) t"
    unfolding pg_refused_def image_key only using codec(1) by (simp add: decode_row_def with_payload_def)
  with wait(1) show "EventId (new_v4 h1) \<in> waiting t - pg_refused c (refuses Flaky_channel) t" by blast
  have "EventId (new_v4 h2) \<in> pg_refused c (refuses Flaky_channel) t"
    unfolding pg_refused_def image_key only using codec(2) by (simp add: decode_row_def with_payload_def)
  with wait(2) show "EventId (new_v4 h2) \<in> waiting t \<inter> pg_refused c (refuses Flaky_channel) t" by blast
qed

text \<open>
  C37. The DLQ example does what it demonstrates: in a world where no call fails, its \<open>main\<close> returns \<open>Ok\<close>,
  the good event has been published and is \<open>Sent\<close>, and the cursed event, which the transport refuses at
  every attempt, has been moved to the dead letters and was never published.
\<close>
theorem dlq_example_quarantines_cursed_event:
  fixes s :: "(demo_event, 'j) world"
  assumes ok: "pg_ok s" and healthy: "world_healthy c Flaky_channel True dlq_redis_config s"
    and ord: "orderly dlq_config s" and heap: "heap_ok moka dlq_redis_config s" and now: "0 \<le> pg_now s"
    and room: "\<forall>i. failures moka dlq_redis_config s i + 120 < 2 ^ 53"
    and codec: "\<forall>p. \<exists>j. to_value c p = Inr j \<and> from_value c j = Inr p"
    and ids: "new_v4 h1 \<noteq> new_v4 h2" "EventId (new_v4 h1) \<notin> eid ` set (outbox_events s) \<union> pg_dead s"
      "EventId (new_v4 h2) \<notin> eid ` set (outbox_events s) \<union> pg_dead s"
    and new: "EventId (new_v4 h2) \<notin> set (published Flaky_channel s)"
  shows "\<exists>u. dlq_program moka world_text world_libs c world_tx world_rx h1 h2 (\<lambda>x. x) (demo_minutes c moka met) s =
      (Return (Inr ()), u) \<and>
    pg_status u (EventId (new_v4 h1)) = Some Sent \<and> EventId (new_v4 h1) \<in> set (published Flaky_channel u) \<and>
    pg_status u (EventId (new_v4 h2)) = None \<and> EventId (new_v4 h2) \<in> pg_dead u \<and>
    EventId (new_v4 h2) \<notin> set (published Flaky_channel u)"
proof -
  obtain j1 j2 where j: "to_value c (Ping ''hello'') = Inr j1" "from_value c j1 = Inr (Ping ''hello'')"
    "to_value c (Ping ''doom'') = Inr j2" "from_value c j2 = Inr (Ping ''doom'')" using codec by metis
  let ?t = "s\<lparr> outbox_events := outbox_events s @
      [with_payload (Payload j1) (good_ping h1), with_payload (Payload j2) (cursed_ping h2)] \<rparr>"
  note t = dlq_rows[OF ok healthy ord heap now ids j(2,4)]
  have cfg: "0 \<le> sint (lock_timeout_mins dlq_config)" "batch_size dlq_config \<noteq> 0" "poll_interval_secs dlq_config \<noteq> 0"
    by (simp_all add: dlq_config_def)
  have "\<forall>i. failures moka dlq_redis_config ?t i + length (concat demo_blocks) < 2 ^ 53"
    using room unfolding t(5) demo_blocks(1) by simp
  from manager_settles[OF t(1-4) cfg this demo_blocks(2-4), where met = met, unfolded demo_blocks(1)]
  obtain v u new where
    run: "manager_run (manager_of c dlq_config Flaky_channel moka dlq_redis_config) (world_recorder met) world_sleep
        (polls_after (replicate 120 2)) ?t = Return (Some (None, v))"
      "dlq_tick (reaper_of c dlq_config moka dlq_redis_config) v = u"
    and u: "published Flaky_channel u = published Flaky_channel ?t @ new"
      "set new = waiting ?t - pg_refused c (refuses Flaky_channel) ?t"
      "\<forall>i \<in> waiting ?t. if i \<in> pg_refused c (refuses Flaky_channel) ?t then pg_status u i = None \<and> i \<in> pg_dead u
        else pg_status u i = Some Sent"
    by blast
  have "pg_script s = []" using healthy by (simp add: world_healthy_def)
  from dlq_requests[OF this ids(1) _ _ j(1,3), of moka] ids run
  have "dlq_program moka world_text world_libs c world_tx world_rx h1 h2 (\<lambda>x. x) (demo_minutes c moka met) s =
      (Return (Inr ()), u\<lparr> stop_flag := True \<rparr>)"
    by (simp add: dlq_program_def world_libs_def world_provider_new shut_down_def demo_minutes_def
        del: map_replicate)
  moreover have "pg_status (u\<lparr> stop_flag := True \<rparr>) = pg_status u" "pg_dead (u\<lparr> stop_flag := True \<rparr>) = pg_dead u"
    by (simp_all add: pg_status_def pg_dead_def)
  ultimately show ?thesis
    using u t(6,7) new by (intro exI[of _ "u\<lparr> stop_flag := True \<rparr>"] conjI) auto
qed

definition demo_client :: "(demo_event, string) pg_client" where
  "demo_client =
     \<lparr> to_value = (\<lambda>p. case p of Ping x \<Rightarrow> Inr x), from_value = (\<lambda>j. Inr (Ping j)),
       duplicate_key_text = (\<lambda>name. name) \<rparr>"

definition demo_world :: "(demo_event, string) world" where
  "demo_world =
     \<lparr> outbox_events = [], outbox_dead_letters = [], pg_now = 600000000, pg_script = [],
       listener = None, listen_script = [], channel = [], receiver_open = True, kafka_log = [],
       kafka_up = True, kafka_acks = [], redis_now = 0, redis_strings = [], redis_zsets = [], redis_script = [],
       cached_keys = [], metrics_log = [], stop_flag = False, sender_gone = False \<rparr>"

theorem dlq_example_quarantines_cursed_event_witness:
  "\<exists>u. dlq_program True world_text world_libs demo_client world_tx world_rx sample_host (sample_host\<lparr> new_v4 := 8 \<rparr>)
      (\<lambda>x. x) (demo_minutes demo_client True True) demo_world = (Return (Inr ()), u) \<and>
    pg_status u (EventId 7) = Some Sent \<and> EventId 7 \<in> set (published Flaky_channel u) \<and>
    pg_status u (EventId 8) = None \<and> EventId 8 \<in> pg_dead u"
proof -
  have w: "pg_ok demo_world" "world_healthy demo_client Flaky_channel True dlq_redis_config demo_world"
    "orderly dlq_config demo_world" "heap_ok True dlq_redis_config demo_world" "0 \<le> pg_now demo_world"
    "\<forall>i. failures True dlq_redis_config demo_world i + 120 < 2 ^ 53"
    by (simp_all add: demo_world_def pg_ok_def world_healthy_def decodable_def world_str_def str_lookup_def orderly_def
        redis_hinv_def redis_counts_def world_zset_def zset_list_def)
  have codec: "\<forall>p. \<exists>j. to_value demo_client p = Inr j \<and> from_value demo_client j = Inr p"
    by (simp add: demo_client_def split: demo_event.split)
  have ids: "new_v4 sample_host \<noteq> new_v4 (sample_host\<lparr> new_v4 := 8 \<rparr>)"
    "EventId (new_v4 sample_host) \<notin> eid ` set (outbox_events demo_world) \<union> pg_dead demo_world"
    "EventId (new_v4 (sample_host\<lparr> new_v4 := 8 \<rparr>)) \<notin> eid ` set (outbox_events demo_world) \<union> pg_dead demo_world"
    "EventId (new_v4 (sample_host\<lparr> new_v4 := 8 \<rparr>)) \<notin> set (published Flaky_channel demo_world)"
    by (simp_all add: sample_host_def demo_world_def pg_dead_def)
  from dlq_example_quarantines_cursed_event[OF w codec ids, where met = True] show ?thesis
    by (simp add: sample_host_def) blast
qed

end
