(* ===== verification/Runtime_Properties.thy ===== *)
theory Runtime_Properties
  imports Samples
begin

text \<open>
  The long-running tasks (how they end and what they survive), the builder, and the Kafka transport.
\<close>

section \<open>The loops\<close>


abbreviation sample_manager :: "((my_event, string) world, my_event) outbox_manager" where
  "sample_manager \<equiv> OutboxManager_new (PostgresOutbox sample_client in_memory_config) (world_publisher Tokio_channel)
     in_memory_config None world_rx"


text \<open>
  C31. The garbage collector outlives every failure of its storage: unless its interval is zero
  seconds, when it panics, it never hangs in a turn, and it has returned only when a stop was
  requested, with \<open>Ok\<close>.
\<close>
theorem gc_survives_storage_errors:
  "if secs = 0 then \<exists>msg. gc_run gc secs rx ws s = Panic msg
   else \<exists>r t. gc_run gc secs rx ws s = Return (Some (r, t)) \<and>
     (r = None \<or> r = Some (Inr ()) \<and> stop_requested rx t \<and> (\<exists>others. (others, Shutdown_changed) \<in> set ws))"
proof -
  obtain r t where run: "select_loop (gc_turn gc rx) ws s = Some (r, t)"
    using gc.never_diverges[of gc rx ws s] by fastforce
  show ?thesis
  proof (cases r)
    case None
    with run show ?thesis by (simp add: gc_run_def on_interval_Panic)
  next
    case (Some q)
    with run select_loop_no_error[of "gc_turn gc rx" ws s q t] gc.returned_on_stop[of gc rx ws s q t]
    show ?thesis by (auto simp: gc_run_def on_interval_Panic)
  qed
qed

text \<open>
  C32. The reaper outlives every failure of its heap and of its storage: unless its interval is zero
  seconds, when it panics, it never hangs in a turn, and it has returned only when a stop was
  requested, with \<open>Ok\<close>.
\<close>
theorem reaper_survives_errors:
  "if dlq_interval_secs (dp_config dp) = 0 then \<exists>msg. dlq_run dp ws s = Panic msg
   else \<exists>r t. dlq_run dp ws s = Return (Some (r, t)) \<and>
     (r = None \<or> r = Some (Inr ()) \<and> stop_requested (dp_shutdown_rx dp) t \<and>
        (\<exists>others. (others, Shutdown_changed) \<in> set ws))"
proof -
  obtain r t where run: "select_loop (dlq_turn dp) ws s = Some (r, t)"
    using dlq.never_diverges[of dp ws s] by fastforce
  show ?thesis
  proof (cases r)
    case None
    with run show ?thesis by (simp add: dlq_run_def on_interval_Panic)
  next
    case (Some q)
    with run select_loop_no_error[of "dlq_turn dp" ws s q t] dlq.returned_on_stop[of dp ws s q t]
    show ?thesis by (auto simp: dlq_run_def on_interval_Panic)
  qed
qed

section \<open>The builder\<close>

text \<open>
  The required collaborators in the order the builder checks them, with its messages.
\<close>

definition required :: "bool \<Rightarrow> ('s, 'p) outbox_manager_builder \<Rightarrow> (bool \<times> string) list" where
  "required dlq b =
     [(bd_storage b \<noteq> None, ''Storage config is missing''),
      (bd_publisher b \<noteq> None, ''Publisher config is missing''),
      (bd_config b \<noteq> None, ''Config config is missing''),
      (dlq \<longrightarrow> bd_dlq_heap b \<noteq> None, ''Dlq heap config is missing''),
      (bd_shutdown_rx b \<noteq> None, ''Shutdown channel is missing'')]"

text \<open>
  C33. \<open>build\<close> fails with the message of the first missing collaborator, in this order, and otherwise
  gives the manager of the collaborators that were set; a heap is needed exactly with the \<open>dlq\<close>
  feature and dropped without it.
\<close>
theorem build_reports_first_missing:
  "build dlq b =
     (case filter (\<lambda>(present, _). \<not> present) (required dlq b) of
        (_, msg) # _ \<Rightarrow> Inl (ConfigError msg)
      | [] \<Rightarrow> Inr (OutboxManager_new (the (bd_storage b)) (the (bd_publisher b)) (the (bd_config b))
                (if dlq then bd_dlq_heap b else None) (the (bd_shutdown_rx b))))"
  by (cases "bd_storage b"; cases "bd_publisher b"; cases "bd_config b"; cases "bd_dlq_heap b";
      cases "bd_shutdown_rx b"; cases dlq) (simp_all add: build_def required_def)

section \<open>The Kafka transport\<close>

text \<open>
  C36. Publishing to Kafka makes at most one send, of one record to the configured topic, keyed by the
  payload's key, whose headers give the consumer the event's id, type, creation time and, when the
  event has one, its token; nothing is sent when the payload does not serialize.
\<close>
theorem kafka_sends_one_described_record:
  "(\<exists>e. to_vec kp (payload ev) = Inl e \<and> kafka_publish kp kt ev s = (Inl (InfrastructureError e), s)) \<or>
   (\<exists>r. fr_topic r = kt_topic kt \<and> to_vec kp (payload ev) = Inr (fr_payload r) \<and>
      fr_key r = kafka_key kp (as_value (payload ev)) \<and>
      header_value ''event_id'' (fr_headers r) = Some (uuid_text kp (as_uuid (eid ev))) \<and>
      header_value ''event_type'' (fr_headers r) = Some (event_type_as_str (event_type ev)) \<and>
      header_value ''created_at'' (fr_headers r) = Some (instant_text kp (created_at ev)) \<and>
      header_value ''idempotency_token'' (fr_headers r) =
        map_option token_as_str (idempotency_token ev) \<and>
      snd (kafka_publish kp kt ev s) = snd (send (kt_producer kt) r 10 s))"
proof (cases "to_vec kp (payload ev)")
  case (Inl e)
  then show ?thesis by (simp add: kafka_publish_def)
next
  case (Inr b)
  then show ?thesis
    by (intro disjI2 exI[of _ "\<lparr> fr_topic = kt_topic kt, fr_payload = b,
        fr_key = kafka_key kp (as_value (payload ev)), fr_headers = kafka_headers kp ev \<rparr>"])
      (simp add: header_values kafka_publish_def split: prod.splits sum.splits)
qed

text \<open>
  Every failure of the Kafka transport is an \<open>InfrastructureError\<close>; the variant \<open>BrokerError\<close>,
  which the error type reserves for transports, is never returned.
\<close>
theorem kafka_never_broker_error:
  "case fst (kafka_publish kp kt ev s) of Inl e \<Rightarrow> \<exists>m. e = InfrastructureError m | Inr _ \<Rightarrow> True"
  by (auto simp: kafka_publish_def split: sum.splits prod.splits)

end
