(* ===== verification/Mocks.thy ===== *)
theory Mocks
  imports Manager Service
begin

text \<open>
  Test doubles for the traits of \<^verbatim>\<open>outbox-core\<close>, as the \<open>mockall\<close> doubles of the unit tests are
  used: a script gives the reply to the n-th call of each method, the world is the log of the calls
  together with the shutdown channel, and an expectation is a check of the log. A reply may set the
  shutdown flag, as the closures that own the sender do.

  \<open>times kind n\<close> is \<open>expect_kind().times(n)\<close>, \<open>withf kind P\<close> is \<open>expect_kind().withf(P)\<close>. A call
  without an expectation panics in \<open>mockall\<close>; here it is in the log, and the test counts it.
\<close>

section \<open>The log\<close>

datatype 'p mock_call =
    is_Fetch: Fetch (fetch_limit: u32)
  | is_Update: Update (update_ids: "event_id list") (update_to: event_status)
  | is_Collect: Collect
  | is_Wait: Wait (wait_channel: string)
  | is_Quarantine: Quarantine (quarantine_entries: "dlq_entry list")
  | is_Published: Published (published_event: "'p event")
  | is_Failure: Failure (failure_id: event_id)
  | is_Success: Success (success_id: event_id)
  | is_Drain: Drain (drain_threshold: u32)
  | is_Reserve: Reserve (reserve_token: idempotency_token)
  | is_Insert: Insert (inserted_event: "'p event")

record 'p mock_world =
  calls :: "'p mock_call list"
  stop_sent :: bool
  tx_dropped :: bool

definition quiet :: "'p mock_world" where
  "quiet = \<lparr> calls = [], stop_sent = False, tx_dropped = False \<rparr>"

definition send :: "bool \<Rightarrow> 'p mock_world \<Rightarrow> 'p mock_world" where
  "send b w = w\<lparr> stop_sent := b \<rparr>"

definition drop_tx :: "'p mock_world \<Rightarrow> 'p mock_world" where
  "drop_tx w = w\<lparr> tx_dropped := True \<rparr>"

definition mock_rx :: "'p mock_world shutdown_rx" where
  "mock_rx = \<lparr> borrow = stop_sent, channel_closed = tx_dropped \<rparr>"

definition called :: "('p mock_call \<Rightarrow> bool) \<Rightarrow> 'p mock_world \<Rightarrow> 'p mock_call list" where
  "called kind w = filter kind (calls w)"

definition times :: "('p mock_call \<Rightarrow> bool) \<Rightarrow> nat \<Rightarrow> 'p mock_world \<Rightarrow> bool" where
  "times kind n w \<longleftrightarrow> length (called kind w) = n"

definition withf :: "('p mock_call \<Rightarrow> bool) \<Rightarrow> ('p mock_call \<Rightarrow> bool) \<Rightarrow> 'p mock_world \<Rightarrow> bool" where
  "withf kind P w \<longleftrightarrow> list_all P (called kind w)"

section \<open>Scripts\<close>

type_synonym 'a replies = "nat \<Rightarrow> (outbox_error + 'a) \<times> bool"

definition returning :: "outbox_error + 'a \<Rightarrow> 'a replies" where
  "returning r n = (r, False)"

fun in_sequence :: "((outbox_error + 'a) \<times> bool) list \<Rightarrow> 'a replies \<Rightarrow> 'a replies" where
  "in_sequence [] later n = later n"
| "in_sequence (r # rs) later 0 = r"
| "in_sequence (r # rs) later (Suc n) = in_sequence rs later n"

record 'p mock_script =
  on_fetch :: "'p event list replies"
  on_update :: "unit replies"
  on_collect :: "unit replies"
  on_wait :: "unit replies"
  on_quarantine :: "unit replies"
  on_publish :: "unit replies"
  on_failure :: "unit replies"
  on_success :: "unit replies"
  on_drain :: "dlq_entry list replies"
  on_reserve :: "bool replies"
  on_insert :: "unit replies"

definition unexpected :: "'a replies" where
  "unexpected = returning (Inl (InfrastructureError ''no matching expectation''))"

definition no_expectations :: "'p mock_script" where
  "no_expectations =
     \<lparr> on_fetch = unexpected, on_update = unexpected, on_collect = unexpected, on_wait = unexpected,
       on_quarantine = unexpected, on_publish = unexpected, on_failure = unexpected,
       on_success = unexpected, on_drain = unexpected, on_reserve = unexpected,
       on_insert = unexpected \<rparr>"

definition answer :: "('p mock_call \<Rightarrow> bool) \<Rightarrow> 'a replies \<Rightarrow> 'p mock_call \<Rightarrow>
    ('p mock_world, 'a) io" where
  "answer kind replies c w =
     (let (r, stop) = replies (length (called kind w))
      in (r, w\<lparr> calls := calls w @ [c], stop_sent := stop_sent w \<or> stop \<rparr>))"

section \<open>The doubles\<close>

definition MockOutboxStorage :: "'p mock_script \<Rightarrow> ('p mock_world, 'p) outbox_storage" where
  "MockOutboxStorage sc =
     \<lparr> fetch_next_to_process = (\<lambda>l. answer is_Fetch (on_fetch sc) (Fetch l)),
       update_status = (\<lambda>ids st. answer is_Update (on_update sc) (Update ids st)),
       delete_garbage = answer is_Collect (on_collect sc) Collect,
       wait_for_notification = (\<lambda>ch. answer is_Wait (on_wait sc) (Wait ch)),
       quarantine_events = (\<lambda>es. answer is_Quarantine (on_quarantine sc) (Quarantine es)) \<rparr>"

definition MockOutboxWriter :: "'p mock_script \<Rightarrow> ('p mock_world, 'p) outbox_writer" where
  "MockOutboxWriter sc = \<lparr> insert_event = (\<lambda>e. answer is_Insert (on_insert sc) (Insert e)) \<rparr>"

definition MockTransport :: "'p mock_script \<Rightarrow> ('p mock_world, 'p) transport" where
  "MockTransport sc = \<lparr> publish = (\<lambda>e. answer is_Published (on_publish sc) (Published e)) \<rparr>"

definition MockDlqHeap :: "'p mock_script \<Rightarrow> 'p mock_world dlq_heap" where
  "MockDlqHeap sc =
     \<lparr> record_failure = (\<lambda>i. answer is_Failure (on_failure sc) (Failure i)),
       record_success = (\<lambda>i. answer is_Success (on_success sc) (Success i)),
       drain_exceeded = (\<lambda>n. answer is_Drain (on_drain sc) (Drain n)) \<rparr>"

definition MockIdempotencyStorageProvider :: "'p mock_script \<Rightarrow>
    'p mock_world idempotency_provider" where
  "MockIdempotencyStorageProvider sc =
     \<lparr> try_reserve = (\<lambda>tok. answer is_Reserve (on_reserve sc) (Reserve tok)) \<rparr>"

text \<open>The heap is there exactly under the \<open>dlq\<close> feature.\<close>

definition cfg_dlq :: "bool \<Rightarrow> 'a \<Rightarrow> 'a option" where
  "cfg_dlq dlq x = (if dlq then Some x else None)"

section \<open>Running a script\<close>

lemma in_sequence_numeral [simp]:
  "in_sequence (r # rs) later (numeral n) = in_sequence rs later (pred_numeral n)"
  "in_sequence (r # rs) later (Suc 0) = in_sequence rs later 0"
  by (simp_all add: numeral_eq_Suc)

lemma returning_run [simp]: "returning r n = (r, False)"
  by (simp add: returning_def)

lemma channel_simps [simp]:
  "borrow mock_rx = stop_sent" "channel_closed mock_rx = tx_dropped"
  "stop_requested mock_rx w \<longleftrightarrow> tx_dropped w \<or> stop_sent w"
  "stop_sent (send b w) = b" "tx_dropped (send b w) = tx_dropped w" "calls (send b w) = calls w"
  "stop_sent (drop_tx w) = stop_sent w" "tx_dropped (drop_tx w)" "calls (drop_tx w) = calls w"
  by (simp_all add: mock_rx_def stop_requested_def send_def drop_tx_def)

lemmas script_simps = no_expectations_def unexpected_def Let_def

lemmas mock_defs = MockOutboxStorage_def MockOutboxWriter_def MockTransport_def MockDlqHeap_def
  MockIdempotencyStorageProvider_def answer_def called_def script_simps quiet_def
  mock_rx_def cfg_dlq_def

lemmas expectations = times_def withf_def called_def

end
