(* ===== verification/Batch_Tests.thy ===== *)
theory Batch_Tests
  imports Mocks
begin

text \<open>
  The unit tests of \<^verbatim>\<open>processor.rs\<close>, run on the model. \<open>new_v4\<close> gives the random id of the n-th
  event a test makes, \<open>now\<close> the instant it is made; \<open>dlq\<close> is the cargo feature, whose two branches
  each test has. A test is true when its assertions hold and every expectation of its doubles is met.
\<close>

definition digit :: "nat \<Rightarrow> string" where
  "digit n = [char_of (48 + n mod 10)]"

definition test_config :: "'p outbox_config" where
  "test_config =
     \<lparr> batch_size = 100, retention_days = 7, gc_interval_secs = 3600, poll_interval_secs = 5,
       lock_timeout_mins = 5, idempotency_strategy = NoToken, dlq_threshold = 10,
       dlq_interval_secs = 1 \<rparr>"

definition make_event :: "(nat \<Rightarrow> uuid) \<Rightarrow> instant \<Rightarrow> nat \<Rightarrow> string event" where
  "make_event v4 now n =
     Event_new (v4 n) now (EventType_new (''t'' @ digit n)) (Payload_new (''v'' @ digit n)) None"

definition run_processor :: "bool \<Rightarrow> string mock_script \<Rightarrow>
    (outbox_error + nat) \<times> string mock_world" where
  "run_processor dlq sc =
     process_pending_events (OutboxProcessor_new (MockOutboxStorage sc) (MockTransport sc) test_config)
       (cfg_dlq dlq (MockDlqHeap sc)) None quiet"

section \<open>The tests\<close>

definition empty_batch_returns_zero_and_skips_status_update :: "bool \<Rightarrow> bool" where
  "empty_batch_returns_zero_and_skips_status_update dlq =
     (let sc = no_expectations\<lparr> on_fetch := returning (Inr []) \<rparr>;
          (result, w) = run_processor dlq sc
      in result = Inr 0 \<and>
         times is_Fetch 1 w \<and> withf is_Fetch (\<lambda>c. fetch_limit c = 100) w \<and>
         times is_Update 0 w \<and> times is_Published 0 w \<and>
         times is_Success 0 w \<and> times is_Failure 0 w \<and> times is_Drain 0 w)"

definition all_publishes_succeed_updates_status_with_all_ids ::
  "bool \<Rightarrow> (nat \<Rightarrow> uuid) \<Rightarrow> instant \<Rightarrow> bool" where
  "all_publishes_succeed_updates_status_with_all_ids dlq v4 now =
     (let events = [make_event v4 now 1, make_event v4 now 2, make_event v4 now 3];
          expected_ids = set (map eid events);
          sc = no_expectations\<lparr> on_fetch := returning (Inr events), on_update := returning (Inr ()),
            on_publish := returning (Inr ()), on_success := returning (Inr ()) \<rparr>;
          (result, w) = run_processor dlq sc
      in result = Inr 3 \<and>
         times is_Fetch 1 w \<and> times is_Update 1 w \<and>
         withf is_Update (\<lambda>c. set (update_ids c) = expected_ids \<and> update_to c = Sent) w \<and>
         times is_Published 3 w \<and>
         times is_Success (if dlq then 3 else 0) w \<and> times is_Failure 0 w)"

definition partial_publish_failure_updates_only_successful ::
  "bool \<Rightarrow> (nat \<Rightarrow> uuid) \<Rightarrow> instant \<Rightarrow> bool" where
  "partial_publish_failure_updates_only_successful dlq v4 now =
     (let e1 = make_event v4 now 1; e2 = make_event v4 now 2; e3 = make_event v4 now 3;
          sc = no_expectations\<lparr> on_fetch := returning (Inr [e1, e2, e3]),
            on_update := returning (Inr ()),
            on_publish := in_sequence
              [(Inr (), False), (Inl (BrokerError ''boom''), False), (Inr (), False)]
              unexpected,
            on_success := returning (Inr ()), on_failure := returning (Inr ()) \<rparr>;
          (result, w) = run_processor dlq sc
      in result = Inr 3 \<and>
         times is_Fetch 1 w \<and> times is_Update 1 w \<and>
         withf is_Update (\<lambda>c. card (set (update_ids c)) = 2 \<and> eid e1 \<in> set (update_ids c) \<and>
           eid e3 \<in> set (update_ids c) \<and> eid e2 \<notin> set (update_ids c) \<and> update_to c = Sent) w \<and>
         times is_Published 3 w \<and>
         times is_Success (if dlq then 2 else 0) w \<and>
         withf is_Success (\<lambda>c. success_id c = eid e1 \<or> success_id c = eid e3) w \<and>
         times is_Failure (if dlq then 1 else 0) w \<and>
         withf is_Failure (\<lambda>c. failure_id c = eid e2) w)"

definition all_publishes_fail_skips_status_update ::
  "bool \<Rightarrow> (nat \<Rightarrow> uuid) \<Rightarrow> instant \<Rightarrow> bool" where
  "all_publishes_fail_skips_status_update dlq v4 now =
     (let events = [make_event v4 now 1, make_event v4 now 2];
          sc = no_expectations\<lparr> on_fetch := returning (Inr events),
            on_publish := returning (Inl (BrokerError ''x'')), on_failure := returning (Inr ()) \<rparr>;
          (result, w) = run_processor dlq sc
      in result = Inr 2 \<and>
         times is_Fetch 1 w \<and> times is_Update 0 w \<and> times is_Published 2 w \<and>
         times is_Success 0 w \<and> times is_Failure (if dlq then 2 else 0) w)"

definition fetch_error_propagates_without_publishing :: "bool \<Rightarrow> bool" where
  "fetch_error_propagates_without_publishing dlq =
     (let sc = no_expectations\<lparr> on_fetch := returning (Inl (DatabaseError ''boom'')) \<rparr>;
          (result, w) = run_processor dlq sc
      in (case result of Inl (DatabaseError _) \<Rightarrow> True | _ \<Rightarrow> False) \<and>
         times is_Fetch 1 w \<and> times is_Update 0 w \<and> times is_Published 0 w \<and>
         times is_Success 0 w \<and> times is_Failure 0 w)"

definition update_status_error_propagates_after_publish ::
  "bool \<Rightarrow> (nat \<Rightarrow> uuid) \<Rightarrow> instant \<Rightarrow> bool" where
  "update_status_error_propagates_after_publish dlq v4 now =
     (let sc = no_expectations\<lparr> on_fetch := returning (Inr [make_event v4 now 1]),
            on_update := returning (Inl (DatabaseError ''boom'')),
            on_publish := returning (Inr ()), on_success := returning (Inr ()) \<rparr>;
          (result, w) = run_processor dlq sc
      in (case result of Inl (DatabaseError _) \<Rightarrow> True | _ \<Rightarrow> False) \<and>
         times is_Fetch 1 w \<and> times is_Update 1 w \<and> times is_Published 1 w \<and>
         times is_Success (if dlq then 1 else 0) w)"

definition processor_tests :: "bool \<Rightarrow> (nat \<Rightarrow> uuid) \<Rightarrow> instant \<Rightarrow> bool" where
  "processor_tests dlq v4 now \<longleftrightarrow>
     empty_batch_returns_zero_and_skips_status_update dlq \<and>
     all_publishes_succeed_updates_status_with_all_ids dlq v4 now \<and>
     partial_publish_failure_updates_only_successful dlq v4 now \<and>
     all_publishes_fail_skips_status_update dlq v4 now \<and>
     fetch_error_propagates_without_publishing dlq \<and>
     update_status_error_propagates_after_publish dlq v4 now"

section \<open>Running them\<close>

text \<open>Random ids do not collide: all a test needs of the generator.\<close>

definition fresh_ids :: "(nat \<Rightarrow> uuid) \<Rightarrow> bool" where
  "fresh_ids v4 \<longleftrightarrow> distinct (map v4 [1, 2, 3, 4])"

lemma fresh_ids_neq:
  assumes "fresh_ids v4"
  shows "v4 (Suc 0) \<noteq> v4 2" "v4 (Suc 0) \<noteq> v4 3" "v4 (Suc 0) \<noteq> v4 4"
    and "v4 2 \<noteq> v4 (Suc 0)" "v4 2 \<noteq> v4 3" "v4 2 \<noteq> v4 4"
    and "v4 3 \<noteq> v4 (Suc 0)" "v4 3 \<noteq> v4 2" "v4 3 \<noteq> v4 4"
    and "v4 4 \<noteq> v4 (Suc 0)" "v4 4 \<noteq> v4 2" "v4 4 \<noteq> v4 3"
  using assms by (auto simp: fresh_ids_def)

lemma make_event_eid [simp]: "eid (make_event v4 now n) = EventId (v4 n)"
  by (simp add: make_event_def Event_new_def EventId_default_def)

lemmas processor_test_run = run_processor_def process_pending_events_def event_publish_def and_then_def
  OutboxProcessor_new_def test_config_def mock_defs expectations

lemma empty_batch_test: "empty_batch_returns_zero_and_skips_status_update dlq"
  by (simp add: empty_batch_returns_zero_and_skips_status_update_def processor_test_run)

lemma fetch_error_test: "fetch_error_propagates_without_publishing dlq"
  by (simp add: fetch_error_propagates_without_publishing_def processor_test_run)

lemma all_succeed_test: "all_publishes_succeed_updates_status_with_all_ids dlq v4 now"
  by (cases dlq)
    (simp_all add: all_publishes_succeed_updates_status_with_all_ids_def processor_test_run)

lemma all_fail_test: "all_publishes_fail_skips_status_update dlq v4 now"
  by (cases dlq) (simp_all add: all_publishes_fail_skips_status_update_def processor_test_run)

lemma update_error_test: "update_status_error_propagates_after_publish dlq v4 now"
  by (cases dlq) (simp_all add: update_status_error_propagates_after_publish_def processor_test_run)

lemma partial_failure_test:
  assumes "fresh_ids v4"
  shows "partial_publish_failure_updates_only_successful dlq v4 now"
  by (cases dlq)
    (simp_all add: partial_publish_failure_updates_only_successful_def processor_test_run
      fresh_ids_neq[OF assms])

lemma processor_tests_pass: "fresh_ids v4 \<Longrightarrow> processor_tests dlq v4 now"
  by (simp add: processor_tests_def empty_batch_test all_succeed_test partial_failure_test
      all_fail_test fetch_error_test update_error_test)

end
