(* ===== verification/Intake_Tests.thy ===== *)
theory Intake_Tests
  imports Batch_Tests
begin

text \<open>
  The unit tests of \<^verbatim>\<open>service.rs\<close>, \<^verbatim>\<open>idempotency/strategy.rs\<close> and \<^verbatim>\<open>builder.rs\<close>, run on the model.
  The host \<open>h\<close> is arbitrary: the tests that speak of a generated token need only that it is a
  UUID's 36 characters. A test with \<open>should_panic\<close> is true when the call panics with the message.
\<close>

record test_payload =
  kind :: string

definition test_payload :: test_payload where
  "test_payload = \<lparr> kind = ''k'' \<rparr>"

section \<open>Service (service.rs)\<close>

definition config_with :: "'p idempotency_strategy \<Rightarrow> 'p outbox_config" where
  "config_with strategy =
     \<lparr> batch_size = 100, retention_days = 7, gc_interval_secs = 3600, poll_interval_secs = 10,
       lock_timeout_mins = 5, idempotency_strategy = strategy, dlq_threshold = 10,
       dlq_interval_secs = 1 \<rparr>"

type_synonym intake_result = "(outbox_error + unit) exec \<times> test_payload mock_world"

definition with_storage :: "test_payload mock_script \<Rightarrow> test_payload idempotency_strategy \<Rightarrow>
    (test_payload mock_world, test_payload) outbox_service" where
  "with_storage sc strategy = OutboxService_with_idempotency (MockOutboxWriter sc)
     (config_with strategy) (MockIdempotencyStorageProvider sc)"

definition without_storage :: "test_payload mock_script \<Rightarrow> test_payload idempotency_strategy \<Rightarrow>
    (test_payload mock_world, test_payload) outbox_service" where
  "without_storage sc strategy = OutboxService_new (MockOutboxWriter sc) (config_with strategy)"

definition add_test_event :: "(test_payload mock_world, test_payload) outbox_service \<Rightarrow> host \<Rightarrow>
    string option \<Rightarrow> test_payload event option \<Rightarrow> intake_result" where
  "add_test_event sv h tok event =
     add_event sv h ''t'' test_payload tok (\<lambda>w. (event, w)) quiet"

definition inserted_token_is :: "string \<Rightarrow> test_payload mock_call \<Rightarrow> bool" where
  "inserted_token_is raw c \<longleftrightarrow>
     map_option token_as_str (idempotency_token (inserted_event c)) = Some raw"

definition none_strategy_without_idempotency_storage_inserts_event_without_token :: "host \<Rightarrow> bool" where
  "none_strategy_without_idempotency_storage_inserts_event_without_token h =
     (let sc = no_expectations\<lparr> on_insert := returning (Inr ()) \<rparr>;
          (result, w) = add_test_event (without_storage sc NoToken) h None None
      in result = Return (Inr ()) \<and> times is_Insert 1 w \<and>
         withf is_Insert (\<lambda>c. idempotency_token (inserted_event c) = None \<and>
           event_type_as_str (event_type (inserted_event c)) = ''t'') w)"

definition uuid_strategy_without_idempotency_storage_inserts_event_with_generated_token ::
  "host \<Rightarrow> bool" where
  "uuid_strategy_without_idempotency_storage_inserts_event_with_generated_token h =
     (let sc = no_expectations\<lparr> on_insert := returning (Inr ()) \<rparr>;
          (result, w) = add_test_event (without_storage sc UuidV7) h None None
      in result = Return (Inr ()) \<and> times is_Insert 1 w \<and>
         withf is_Insert (\<lambda>c. case idempotency_token (inserted_event c) of
             None \<Rightarrow> False | Some t \<Rightarrow> token_as_str t \<noteq> []) w)"

definition uuid_strategy_with_storage_reserves_same_token_as_inserted :: "host \<Rightarrow> bool" where
  "uuid_strategy_with_storage_reserves_same_token_as_inserted h =
     (let sc = no_expectations\<lparr> on_reserve := returning (Inr True), on_insert := returning (Inr ()) \<rparr>;
          (result, w) = add_test_event (with_storage sc UuidV7) h None None
      in result = Return (Inr ()) \<and> times is_Reserve 1 w \<and> times is_Insert 1 w \<and>
         map (Some \<circ> reserve_token) (called is_Reserve w) =
           map (idempotency_token \<circ> inserted_event) (called is_Insert w))"

definition provided_some_passes_user_token_to_reserve_and_insert :: "host \<Rightarrow> bool" where
  "provided_some_passes_user_token_to_reserve_and_insert h =
     (let sc = no_expectations\<lparr> on_reserve := returning (Inr True), on_insert := returning (Inr ()) \<rparr>;
          (result, w) = add_test_event (with_storage sc Provided) h (Some ''user-tok'') None
      in result = Return (Inr ()) \<and>
         times is_Reserve 1 w \<and> withf is_Reserve (\<lambda>c. token_as_str (reserve_token c) = ''user-tok'') w \<and>
         times is_Insert 1 w \<and> withf is_Insert (inserted_token_is ''user-tok'') w)"

definition provided_none_skips_reserve_and_inserts_without_token :: "host \<Rightarrow> bool" where
  "provided_none_skips_reserve_and_inserts_without_token h =
     (let sc = no_expectations\<lparr> on_insert := returning (Inr ()) \<rparr>;
          (result, w) = add_test_event (with_storage sc Provided) h None None
      in result = Return (Inr ()) \<and> times is_Reserve 0 w \<and>
         times is_Insert 1 w \<and> withf is_Insert (\<lambda>c. idempotency_token (inserted_event c) = None) w)"

definition custom_strategy_uses_extractor_closure_for_token :: "host \<Rightarrow> bool" where
  "custom_strategy_uses_extractor_closure_for_token h =
     (let derive = (\<lambda>event. ''derived:'' @ kind (as_value (payload event)));
          sc = no_expectations\<lparr> on_reserve := returning (Inr True), on_insert := returning (Inr ()) \<rparr>;
          (result, w) = add_test_event (with_storage sc (Custom derive)) h None
            (Some (Event_new (new_v4 h) (now_utc h) (EventType_new ''t'') (Payload_new test_payload) None))
      in result = Return (Inr ()) \<and>
         times is_Reserve 1 w \<and> withf is_Reserve (\<lambda>c. token_as_str (reserve_token c) = ''derived:k'') w \<and>
         times is_Insert 1 w \<and> withf is_Insert (inserted_token_is ''derived:k'') w)"

definition custom_strategy_panics_when_get_event_returns_none :: "host \<Rightarrow> bool" where
  "custom_strategy_panics_when_get_event_returns_none h =
     (let (result, w) = add_test_event (with_storage no_expectations (Custom (\<lambda>_. ''x''))) h None None
      in result = Panic ''Strategy is Custom, but no Event context provided'' \<and> calls w = [])"

definition duplicate_when_reserve_returns_false_and_insert_is_not_called :: "host \<Rightarrow> bool" where
  "duplicate_when_reserve_returns_false_and_insert_is_not_called h =
     (let sc = no_expectations\<lparr> on_reserve := returning (Inr False) \<rparr>;
          (result, w) = add_test_event (with_storage sc Provided) h (Some ''dup'') None
      in result = Return (Inl DuplicateEvent) \<and> times is_Reserve 1 w \<and> times is_Insert 0 w)"

definition reserve_error_propagates_and_insert_is_not_called :: "host \<Rightarrow> bool" where
  "reserve_error_propagates_and_insert_is_not_called h =
     (let sc = no_expectations\<lparr> on_reserve := returning (Inl (InfrastructureError ''redis down'')) \<rparr>;
          (result, w) = add_test_event (with_storage sc UuidV7) h None None
      in (case result of Return (Inl (InfrastructureError _)) \<Rightarrow> True | _ \<Rightarrow> False) \<and>
         times is_Reserve 1 w \<and> times is_Insert 0 w)"

definition insert_error_propagates_after_successful_reserve :: "host \<Rightarrow> bool" where
  "insert_error_propagates_after_successful_reserve h =
     (let sc = no_expectations\<lparr> on_reserve := returning (Inr True),
            on_insert := returning (Inl (DatabaseError ''pk conflict'')) \<rparr>;
          (result, w) = add_test_event (with_storage sc UuidV7) h None None
      in (case result of Return (Inl (DatabaseError _)) \<Rightarrow> True | _ \<Rightarrow> False) \<and>
         times is_Reserve 1 w \<and> times is_Insert 1 w)"

definition service_tests :: "host \<Rightarrow> bool" where
  "service_tests h \<longleftrightarrow>
     none_strategy_without_idempotency_storage_inserts_event_without_token h \<and>
     uuid_strategy_without_idempotency_storage_inserts_event_with_generated_token h \<and>
     uuid_strategy_with_storage_reserves_same_token_as_inserted h \<and>
     provided_some_passes_user_token_to_reserve_and_insert h \<and>
     provided_none_skips_reserve_and_inserts_without_token h \<and>
     custom_strategy_uses_extractor_closure_for_token h \<and>
     custom_strategy_panics_when_get_event_returns_none h \<and>
     duplicate_when_reserve_returns_false_and_insert_is_not_called h \<and>
     reserve_error_propagates_and_insert_is_not_called h \<and>
     insert_error_propagates_after_successful_reserve h"

lemmas intake_test_run = add_test_event_def add_event_simps with_storage_def without_storage_def
  OutboxService_new_def OutboxService_with_idempotency_def config_with_def test_payload_def
  new_event_def Event_new_def EventType_new_def IdempotencyToken_new_def Payload_new_def
  inserted_token_is_def custom_without_event_def mock_defs expectations

lemma service_tests_without_storage:
  "none_strategy_without_idempotency_storage_inserts_event_without_token h"
  "length (now_v7 h) = 36 \<Longrightarrow>
     uuid_strategy_without_idempotency_storage_inserts_event_with_generated_token h"
  by (auto simp: none_strategy_without_idempotency_storage_inserts_event_without_token_def
      uuid_strategy_without_idempotency_storage_inserts_event_with_generated_token_def
      intake_test_run)

lemma service_tests_granted:
  "uuid_strategy_with_storage_reserves_same_token_as_inserted h"
  "provided_some_passes_user_token_to_reserve_and_insert h"
  "provided_none_skips_reserve_and_inserts_without_token h"
  "custom_strategy_uses_extractor_closure_for_token h"
  by (simp_all add: uuid_strategy_with_storage_reserves_same_token_as_inserted_def
      provided_some_passes_user_token_to_reserve_and_insert_def
      provided_none_skips_reserve_and_inserts_without_token_def
      custom_strategy_uses_extractor_closure_for_token_def intake_test_run)

lemma service_tests_failing:
  "custom_strategy_panics_when_get_event_returns_none h"
  "duplicate_when_reserve_returns_false_and_insert_is_not_called h"
  "reserve_error_propagates_and_insert_is_not_called h"
  "insert_error_propagates_after_successful_reserve h"
  by (simp_all add: custom_strategy_panics_when_get_event_returns_none_def
      duplicate_when_reserve_returns_false_and_insert_is_not_called_def
      reserve_error_propagates_and_insert_is_not_called_def
      insert_error_propagates_after_successful_reserve_def intake_test_run)

section \<open>Strategies (idempotency/strategy.rs)\<close>

text \<open>
  The state of these runs is the flag a \<open>get_event\<close> closure sets when it is called; a closure that
  panics in the test is one that would set the flag.
\<close>

definition marks_call :: "'p event option \<Rightarrow> bool \<Rightarrow> 'p event option \<times> bool" where
  "marks_call event flag = (event, True)"

definition invoke_in_test :: "string idempotency_strategy \<Rightarrow> host \<Rightarrow> string option \<Rightarrow>
    string event option \<Rightarrow> string option exec \<times> bool" where
  "invoke_in_test strategy h tok event = invoke strategy h tok (marks_call event) False"

definition strategy_test_event :: "host \<Rightarrow> string event" where
  "strategy_test_event h = Event_new (new_v4 h) (now_utc h) (EventType_new ''t'') (Payload_new ''p'') None"

definition provided_returns_passed_token :: "host \<Rightarrow> bool" where
  "provided_returns_passed_token h \<longleftrightarrow>
     fst (invoke_in_test Provided h (Some ''abc'') None) = Return (Some ''abc'')"

definition provided_returns_none_when_no_token_passed :: "host \<Rightarrow> bool" where
  "provided_returns_none_when_no_token_passed h \<longleftrightarrow>
     fst (invoke_in_test Provided h None None) = Return None"

definition provided_does_not_invoke_get_event :: "host \<Rightarrow> bool" where
  "provided_does_not_invoke_get_event h \<longleftrightarrow> \<not> snd (invoke_in_test Provided h (Some ''x'') None)"

definition uuid_generates_unique_tokens_across_calls :: "host \<Rightarrow> host \<Rightarrow> bool" where
  "uuid_generates_unique_tokens_across_calls h h' \<longleftrightarrow>
     fst (invoke_in_test UuidV7 h None None) \<noteq> fst (invoke_in_test UuidV7 h' None None)"

definition uuid_ignores_provided_token_and_does_not_invoke_get_event :: "host \<Rightarrow> bool" where
  "uuid_ignores_provided_token_and_does_not_invoke_get_event h =
     (let (token, called) = invoke_in_test UuidV7 h (Some ''user-tok'') None
      in \<not> called \<and> token \<noteq> Return None \<and> token \<noteq> Return (Some ''user-tok''))"

definition custom_invokes_closure_and_derives_token_from_event :: "host \<Rightarrow> bool" where
  "custom_invokes_closure_and_derives_token_from_event h =
     (let derive = (\<lambda>e. ''d:'' @ as_value (payload e));
          (result, called) = invoke_in_test (Custom derive) h None (Some (strategy_test_event h))
      in called \<and> result = Return (Some ''d:p''))"

definition custom_ignores_provided_token :: "host \<Rightarrow> bool" where
  "custom_ignores_provided_token h \<longleftrightarrow>
     fst (invoke_in_test (Custom (\<lambda>_. ''from-closure'')) h (Some ''user'') (Some (strategy_test_event h)))
       = Return (Some ''from-closure'')"

definition custom_panics_when_get_event_returns_none :: "host \<Rightarrow> bool" where
  "custom_panics_when_get_event_returns_none h \<longleftrightarrow>
     fst (invoke_in_test (Custom (\<lambda>_. ''x'')) h None None)
       = Panic ''Strategy is Custom, but no Event context provided''"

definition none_returns_none_and_ignores_inputs :: "host \<Rightarrow> bool" where
  "none_returns_none_and_ignores_inputs h \<longleftrightarrow>
     fst (invoke_in_test NoToken h (Some ''x'') None) = Return None"

definition none_does_not_invoke_get_event :: "host \<Rightarrow> bool" where
  "none_does_not_invoke_get_event h \<longleftrightarrow> \<not> snd (invoke_in_test NoToken h None None)"

definition strategy_tests :: "host \<Rightarrow> host \<Rightarrow> bool" where
  "strategy_tests h h' \<longleftrightarrow>
     provided_returns_passed_token h \<and> provided_returns_none_when_no_token_passed h \<and>
     provided_does_not_invoke_get_event h \<and> uuid_generates_unique_tokens_across_calls h h' \<and>
     uuid_ignores_provided_token_and_does_not_invoke_get_event h \<and>
     custom_invokes_closure_and_derives_token_from_event h \<and> custom_ignores_provided_token h \<and>
     custom_panics_when_get_event_returns_none h \<and>
     none_returns_none_and_ignores_inputs h \<and> none_does_not_invoke_get_event h"

lemmas strategy_test_run = invoke_in_test_def marks_call_def strategy_test_event_def Event_new_def
  Payload_new_def custom_without_event_def Let_def

lemma strategy_tests_token_free:
  "provided_returns_passed_token h" "provided_returns_none_when_no_token_passed h"
  "provided_does_not_invoke_get_event h" "custom_ignores_provided_token h"
  "none_returns_none_and_ignores_inputs h" "none_does_not_invoke_get_event h"
  by (simp_all add: provided_returns_passed_token_def provided_returns_none_when_no_token_passed_def
      provided_does_not_invoke_get_event_def custom_ignores_provided_token_def
      none_returns_none_and_ignores_inputs_def none_does_not_invoke_get_event_def strategy_test_run)

lemma strategy_tests_custom:
  "custom_invokes_closure_and_derives_token_from_event h"
  "custom_panics_when_get_event_returns_none h"
  by (simp_all add: custom_invokes_closure_and_derives_token_from_event_def
      custom_panics_when_get_event_returns_none_def strategy_test_run)

lemma strategy_tests_uuid:
  "now_v7 h \<noteq> now_v7 h' \<Longrightarrow> uuid_generates_unique_tokens_across_calls h h'"
  "length (now_v7 h) = 36 \<Longrightarrow> uuid_ignores_provided_token_and_does_not_invoke_get_event h"
  by (auto simp: uuid_generates_unique_tokens_across_calls_def
      uuid_ignores_provided_token_and_does_not_invoke_get_event_def strategy_test_run)

section \<open>Builder (builder.rs)\<close>

text \<open>The \<open>dlq\<close> flag is the cargo feature: under it the tests set a heap too.\<close>

type_synonym test_builder = "(string mock_world, string) outbox_manager_builder"

definition builder_config :: "string outbox_config" where
  "builder_config = OutboxConfig_default
     \<lparr> batch_size := 100, retention_days := 7, gc_interval_secs := 3600, poll_interval_secs := 5,
       lock_timeout_mins := 5, idempotency_strategy := NoToken \<rparr>"

definition with_dlq_heap :: "bool \<Rightarrow> test_builder \<Rightarrow> test_builder" where
  "with_dlq_heap dlq b = (if dlq then set_dlq_heap (MockDlqHeap no_expectations) b else b)"

definition set_mock_storage :: "test_builder \<Rightarrow> test_builder" where
  "set_mock_storage = set_storage (MockOutboxStorage no_expectations)"

definition set_mock_publisher :: "test_builder \<Rightarrow> test_builder" where
  "set_mock_publisher = set_publisher (MockTransport no_expectations)"

fun is_ok :: "'e + 'a \<Rightarrow> bool" where
  "is_ok (Inr x) = True"
| "is_ok (Inl e) = False"

fun config_error_with :: "outbox_error + 'a \<Rightarrow> string \<Rightarrow> bool" where
  "config_error_with (Inl (ConfigError msg)) needle = sublist needle msg"
| "config_error_with _ needle = False"

definition test_success_build :: "bool \<Rightarrow> bool" where
  "test_success_build dlq \<longleftrightarrow> is_ok (build dlq (with_dlq_heap dlq (set_shutdown_rx mock_rx
     (set_config builder_config (set_mock_publisher (set_mock_storage Builder_new))))))"

definition default_builder_fails_on_build_with_config_error :: "bool \<Rightarrow> bool" where
  "default_builder_fails_on_build_with_config_error dlq =
     (case build dlq (Builder_default :: test_builder) of
        Inl (ConfigError _) \<Rightarrow> True | _ \<Rightarrow> False)"

definition new_matches_default :: "bool \<Rightarrow> bool" where
  "new_matches_default dlq =
     (case (build dlq (Builder_new :: test_builder), build dlq (Builder_default :: test_builder)) of
        (Inl (ConfigError m1), Inl (ConfigError m2)) \<Rightarrow> m1 = m2 | _ \<Rightarrow> False)"

definition build_fails_without_storage :: "bool \<Rightarrow> bool" where
  "build_fails_without_storage dlq \<longleftrightarrow> config_error_with (build dlq (with_dlq_heap dlq
     (set_shutdown_rx mock_rx (set_config builder_config (set_mock_publisher Builder_new))))) ''Storage''"

definition build_fails_without_publisher :: "bool \<Rightarrow> bool" where
  "build_fails_without_publisher dlq \<longleftrightarrow> config_error_with (build dlq (with_dlq_heap dlq
     (set_shutdown_rx mock_rx (set_config builder_config (set_mock_storage Builder_new))))) ''Publisher''"

definition build_fails_without_config :: "bool \<Rightarrow> bool" where
  "build_fails_without_config dlq \<longleftrightarrow> config_error_with (build dlq (with_dlq_heap dlq
     (set_shutdown_rx mock_rx (set_mock_publisher (set_mock_storage Builder_new))))) ''Config''"

definition build_fails_without_shutdown_rx :: "bool \<Rightarrow> bool" where
  "build_fails_without_shutdown_rx dlq \<longleftrightarrow> config_error_with (build dlq (with_dlq_heap dlq
     (set_config builder_config (set_mock_publisher (set_mock_storage Builder_new))))) ''Shutdown''"

definition build_fails_without_dlq_heap :: bool where
  "build_fails_without_dlq_heap \<longleftrightarrow> config_error_with (build True (set_shutdown_rx mock_rx
     (set_config builder_config (set_mock_publisher (set_mock_storage Builder_new))))) ''Dlq''"

definition build_is_insensitive_to_setter_order :: "bool \<Rightarrow> bool" where
  "build_is_insensitive_to_setter_order dlq \<longleftrightarrow> is_ok (build dlq (with_dlq_heap dlq
     (set_mock_storage (set_mock_publisher (set_config builder_config
       (set_shutdown_rx mock_rx Builder_new))))))"

definition builder_tests :: "bool \<Rightarrow> bool" where
  "builder_tests dlq \<longleftrightarrow>
     test_success_build dlq \<and> default_builder_fails_on_build_with_config_error dlq \<and>
     new_matches_default dlq \<and> build_fails_without_storage dlq \<and>
     build_fails_without_publisher dlq \<and> build_fails_without_config dlq \<and>
     build_fails_without_shutdown_rx dlq \<and> build_fails_without_dlq_heap \<and>
     build_is_insensitive_to_setter_order dlq"

lemmas builder_run = build_def with_dlq_heap_def set_mock_storage_def set_mock_publisher_def
  set_storage_def set_publisher_def set_config_def set_shutdown_rx_def set_dlq_heap_def
  Builder_new_def Builder_default_def

lemma builder_tests_ok:
  "test_success_build dlq" "build_is_insensitive_to_setter_order dlq"
  by (cases dlq; simp add: test_success_build_def build_is_insensitive_to_setter_order_def builder_run)+

lemma builder_tests_fail:
  "default_builder_fails_on_build_with_config_error dlq" "new_matches_default dlq"
  "build_fails_without_storage dlq" "build_fails_without_publisher dlq"
  "build_fails_without_config dlq" "build_fails_without_shutdown_rx dlq"
  "build_fails_without_dlq_heap"
  by (cases dlq; simp add: default_builder_fails_on_build_with_config_error_def
      new_matches_default_def build_fails_without_storage_def build_fails_without_publisher_def
      build_fails_without_config_def build_fails_without_shutdown_rx_def
      build_fails_without_dlq_heap_def builder_run sublist_code prefix_code)+

section \<open>All of them\<close>

lemma service_tests_pass: "length (now_v7 h) = 36 \<Longrightarrow> service_tests h"
  by (simp add: service_tests_def service_tests_without_storage service_tests_granted
      service_tests_failing)

lemma strategy_tests_pass:
  "length (now_v7 h) = 36 \<Longrightarrow> now_v7 h \<noteq> now_v7 h' \<Longrightarrow> strategy_tests h h'"
  by (simp add: strategy_tests_def strategy_tests_token_free strategy_tests_custom
      strategy_tests_uuid)

lemma builder_tests_pass: "builder_tests dlq"
  by (simp add: builder_tests_def builder_tests_ok builder_tests_fail)

end
