(* ===== verification/Task_Tests.thy ===== *)
theory Task_Tests
  imports Intake_Tests
begin

text \<open>
  The unit tests of \<^verbatim>\<open>gc.rs\<close>, \<^verbatim>\<open>dlq/processor.rs\<close> and \<^verbatim>\<open>manager.rs\<close>, run on the model. What
  \<open>tokio\<close> decides is an argument: how many ticks fire before the test acts (\<open>k\<close>), which arm of the
  manager's \<open>select!\<close> completes at each turn, and how often the spawned collector runs before it.
  The tests hold for all of them. \<open>handle\<close> timing out is a task that is still waiting when its
  schedule is used up, and a task that returned \<open>Ok\<close> is \<open>Some (Inr ())\<close>.
\<close>

section \<open>Timers\<close>

definition ticks :: "nat \<Rightarrow> (timer_arm, 's) schedule" where
  "ticks k = replicate k (id, Tick)"

type_synonym 's task_outcome = "((outbox_error + unit) option \<times> 's) option exec"

definition finished :: "'s task_outcome \<Rightarrow> bool" where
  "finished run = (case run of Return (Some (Some (Inr _), _)) \<Rightarrow> True | _ \<Rightarrow> False)"

definition still_running :: "'s task_outcome \<Rightarrow> bool" where
  "still_running run = (case run of Return (Some (None, _)) \<Rightarrow> True | _ \<Rightarrow> False)"

lemma select_loop_replicate:
  assumes "\<And>s. turn arm s = Some (Continue, f s)"
  shows "select_loop turn (replicate k (id, arm)) s = Some (None, (f ^^ k) s)"
  by (induction k arbitrary: s) (simp_all add: assms funpow_swap1)

section \<open>Garbage collector (gc.rs)\<close>

definition test_gc :: "string mock_script \<Rightarrow> (string mock_world, string) garbage_collector" where
  "test_gc sc = GarbageCollector_new (MockOutboxStorage sc)"

definition collect_garbage_ok_proxies_to_delete_garbage :: bool where
  "collect_garbage_ok_proxies_to_delete_garbage =
     (let sc = no_expectations\<lparr> on_collect := returning (Inr ()) \<rparr>;
          (result, w) = collect_garbage (test_gc sc) quiet
      in result = Inr () \<and> times is_Collect 1 w)"

definition collect_garbage_propagates_storage_error :: bool where
  "collect_garbage_propagates_storage_error =
     (let sc = no_expectations\<lparr> on_collect := returning (Inl (DatabaseError ''gc failed'')) \<rparr>;
          (result, w) = collect_garbage (test_gc sc) quiet
      in (case result of Inl (DatabaseError _) \<Rightarrow> True | _ \<Rightarrow> False) \<and> times is_Collect 1 w)"

definition collect_garbage_invokes_storage_each_call_with_no_caching :: bool where
  "collect_garbage_invokes_storage_each_call_with_no_caching =
     (let sc = no_expectations\<lparr> on_collect := returning (Inr ()) \<rparr>;
          (first, w) = collect_garbage (test_gc sc) quiet;
          (second, w') = collect_garbage (test_gc sc) w
      in first = Inr () \<and> second = Inr () \<and> times is_Collect 2 w')"

definition run_gc :: "outbox_error + unit \<Rightarrow> u64 \<Rightarrow> (timer_arm, string mock_world) schedule \<Rightarrow>
    string mock_world task_outcome" where
  "run_gc reply secs ws =
     gc_run (test_gc (no_expectations\<lparr> on_collect := returning reply \<rparr>)) secs mock_rx ws quiet"

definition gc_run_exits_when_shutdown_flag_is_set_to_true :: "nat \<Rightarrow> bool" where
  "gc_run_exits_when_shutdown_flag_is_set_to_true k \<longleftrightarrow>
     finished (run_gc (Inr ()) 3600 (ticks k @ [(send True, Shutdown_changed)]))"

definition gc_run_exits_when_sender_is_dropped :: "nat \<Rightarrow> bool" where
  "gc_run_exits_when_sender_is_dropped k \<longleftrightarrow>
     finished (run_gc (Inr ()) 3600 (ticks k @ [(drop_tx, Shutdown_changed)]))"

definition gc_run_does_not_exit_on_shutdown_value_set_to_false :: "nat \<Rightarrow> nat \<Rightarrow> bool" where
  "gc_run_does_not_exit_on_shutdown_value_set_to_false k j \<longleftrightarrow>
     still_running (run_gc (Inr ()) 3600 (ticks k @ (send False, Shutdown_changed) # ticks j))"

definition run_invokes_collect_garbage_on_each_interval_tick :: bool where
  "run_invokes_collect_garbage_on_each_interval_tick =
     (case run_gc (Inr ()) 60 (ticks 3 @ [(send True, Shutdown_changed)]) of
        Return (Some (_, w)) \<Rightarrow> 2 \<le> length (called is_Collect w)
      | _ \<Rightarrow> False)"

definition run_swallows_collect_garbage_errors_and_keeps_running :: bool where
  "run_swallows_collect_garbage_errors_and_keeps_running =
     (case run_gc (Inl (DatabaseError ''transient'')) 60 (ticks 2 @ [(send True, Shutdown_changed)]) of
        Return (Some (Some (Inr _), w)) \<Rightarrow> 2 \<le> length (called is_Collect w)
      | _ \<Rightarrow> False)"

definition gc_tests :: "nat \<Rightarrow> nat \<Rightarrow> bool" where
  "gc_tests k j \<longleftrightarrow>
     collect_garbage_ok_proxies_to_delete_garbage \<and> collect_garbage_propagates_storage_error \<and>
     collect_garbage_invokes_storage_each_call_with_no_caching \<and>
     gc_run_exits_when_shutdown_flag_is_set_to_true k \<and> gc_run_exits_when_sender_is_dropped k \<and>
     gc_run_does_not_exit_on_shutdown_value_set_to_false k j \<and>
     run_invokes_collect_garbage_on_each_interval_tick \<and>
     run_swallows_collect_garbage_errors_and_keeps_running"

lemma run_gc_ticks:
  "select_loop (gc_turn (test_gc (no_expectations\<lparr> on_collect := returning reply \<rparr>)) mock_rx) (ticks k) w =
     Some (None, w\<lparr> calls := calls w @ replicate k Collect \<rparr>)"
proof -
  let ?log = "\<lambda>w. w\<lparr> calls := calls w @ [Collect] \<rparr> :: string mock_world"
  have "(?log ^^ k) w = w\<lparr> calls := calls w @ replicate k Collect \<rparr>" for w
    by (induction k arbitrary: w) (simp_all add: funpow_swap1 del: funpow.simps(2) add: funpow_Suc_right)
  then show ?thesis
    by (simp add: ticks_def select_loop_replicate[where f = ?log] test_gc_def
        GarbageCollector_new_def collect_garbage_def mock_defs)
qed

lemmas gc_test_run = run_gc_def gc_run_def on_interval_positive select_loop_append run_gc_ticks
  changed_arm_def
  finished_def still_running_def

lemma collect_tests:
  "collect_garbage_ok_proxies_to_delete_garbage"
  "collect_garbage_propagates_storage_error"
  "collect_garbage_invokes_storage_each_call_with_no_caching"
  by (simp_all add: collect_garbage_ok_proxies_to_delete_garbage_def
      collect_garbage_propagates_storage_error_def
      collect_garbage_invokes_storage_each_call_with_no_caching_def
      test_gc_def GarbageCollector_new_def collect_garbage_def mock_defs expectations)

lemma gc_loop_tests:
  "gc_run_exits_when_shutdown_flag_is_set_to_true k"
  "gc_run_exits_when_sender_is_dropped k"
  "gc_run_does_not_exit_on_shutdown_value_set_to_false k j"
  "run_invokes_collect_garbage_on_each_interval_tick"
  "run_swallows_collect_garbage_errors_and_keeps_running"
  by (simp_all add: gc_run_exits_when_shutdown_flag_is_set_to_true_def
      gc_run_exits_when_sender_is_dropped_def gc_run_does_not_exit_on_shutdown_value_set_to_false_def
      run_invokes_collect_garbage_on_each_interval_tick_def
      run_swallows_collect_garbage_errors_and_keeps_running_def
      gc_test_run called_def quiet_def)

section \<open>Dead-letter reaper (dlq/processor.rs)\<close>

definition dlq_test_config :: "string outbox_config" where
  "dlq_test_config = test_config\<lparr> dlq_interval_secs := 3600 \<rparr>"

definition run_dlq :: "string mock_script \<Rightarrow> string outbox_config \<Rightarrow>
    (timer_arm, string mock_world) schedule \<Rightarrow> string mock_world task_outcome" where
  "run_dlq sc cfg ws =
     dlq_run (DlqProcessor_new (MockDlqHeap sc) (MockOutboxStorage sc) cfg mock_rx) ws quiet"

definition quiet_heap :: "string mock_script" where
  "quiet_heap = no_expectations\<lparr> on_drain := returning (Inr []) \<rparr>"

definition dlq_run_exits_when_shutdown_flag_is_set_to_true :: "nat \<Rightarrow> bool" where
  "dlq_run_exits_when_shutdown_flag_is_set_to_true k \<longleftrightarrow>
     finished (run_dlq quiet_heap dlq_test_config (ticks k @ [(send True, Shutdown_changed)]))"

definition dlq_run_exits_when_sender_is_dropped :: "nat \<Rightarrow> bool" where
  "dlq_run_exits_when_sender_is_dropped k \<longleftrightarrow>
     finished (run_dlq quiet_heap dlq_test_config (ticks k @ [(drop_tx, Shutdown_changed)]))"

definition dlq_run_does_not_exit_on_shutdown_value_set_to_false :: "nat \<Rightarrow> nat \<Rightarrow> bool" where
  "dlq_run_does_not_exit_on_shutdown_value_set_to_false k j \<longleftrightarrow>
     still_running (run_dlq quiet_heap dlq_test_config
       (ticks k @ (send False, Shutdown_changed) # ticks j))"

definition run_drains_heap_and_forwards_to_quarantine_events :: "uuid \<Rightarrow> nat \<Rightarrow> bool" where
  "run_drains_heap_and_forwards_to_quarantine_events v7 k =
     (let entry = DlqEntry_new (EventId_load v7) 12 None;
          sc = no_expectations\<lparr> on_drain := returning (Inr [entry]),
            on_quarantine := returning (Inr ()) \<rparr>
      in case run_dlq sc (dlq_test_config\<lparr> dlq_interval_secs := 60 \<rparr>)
             (ticks k @ [(send True, Shutdown_changed)]) of
        Return (Some (_, w)) \<Rightarrow>
          withf is_Drain (\<lambda>c. drain_threshold c = 10) w \<and>
          withf is_Quarantine (\<lambda>c. map dlq_id (quarantine_entries c) = [dlq_id entry]) w \<and>
          length (called is_Quarantine w) = length (called is_Drain w)
      | _ \<Rightarrow> False)"

definition run_skips_quarantine_when_drain_returns_empty_batch :: "nat \<Rightarrow> bool" where
  "run_skips_quarantine_when_drain_returns_empty_batch k =
     (case run_dlq quiet_heap (dlq_test_config\<lparr> dlq_interval_secs := 60 \<rparr>)
         (ticks k @ [(send True, Shutdown_changed)]) of
        Return (Some (_, w)) \<Rightarrow> times is_Quarantine 0 w
      | _ \<Rightarrow> False)"

definition run_swallows_quarantine_errors_and_keeps_running :: "uuid \<Rightarrow> bool" where
  "run_swallows_quarantine_errors_and_keeps_running v7 =
     (let sc = no_expectations\<lparr>
            on_drain := returning (Inr [DlqEntry_new (EventId_load v7) 15 None]),
            on_quarantine := returning (Inl (DatabaseError ''boom'')) \<rparr>
      in case run_dlq sc (dlq_test_config\<lparr> dlq_interval_secs := 60 \<rparr>)
             (ticks 2 @ [(send True, Shutdown_changed)]) of
        Return (Some (Some (Inr _), w)) \<Rightarrow> 2 \<le> length (called is_Drain w)
      | _ \<Rightarrow> False)"

definition dlq_tests :: "uuid \<Rightarrow> nat \<Rightarrow> nat \<Rightarrow> bool" where
  "dlq_tests v7 k j \<longleftrightarrow>
     dlq_run_exits_when_shutdown_flag_is_set_to_true k \<and> dlq_run_exits_when_sender_is_dropped k \<and>
     dlq_run_does_not_exit_on_shutdown_value_set_to_false k j \<and>
     run_drains_heap_and_forwards_to_quarantine_events v7 k \<and>
     run_skips_quarantine_when_drain_returns_empty_batch k \<and>
     run_swallows_quarantine_errors_and_keeps_running v7"

text \<open>The calls of one tick, and of \<open>k\<close> of them.\<close>

fun repeated :: "nat \<Rightarrow> 'a list \<Rightarrow> 'a list" where
  "repeated 0 xs = []"
| "repeated (Suc n) xs = xs @ repeated n xs"

lemma filter_repeated [simp]: "filter P (repeated k xs) = repeated k (filter P xs)"
  by (induction k) simp_all

lemma repeated_Nil [simp]: "repeated k [] = []"
  by (induction k) simp_all

lemma length_repeated [simp]: "length (repeated k xs) = k * length xs"
  by (induction k) simp_all

lemma list_all_repeated: "list_all P xs \<Longrightarrow> list_all P (repeated k xs)"
  by (induction k) simp_all

lemma run_dlq_ticks:
  fixes sc :: "string mock_script"
  assumes "\<And>w. dlq_tick (DlqProcessor_new (MockDlqHeap sc) (MockOutboxStorage sc) cfg mock_rx) w =
    w\<lparr> calls := calls w @ cs \<rparr>"
  shows "select_loop (dlq_turn (DlqProcessor_new (MockDlqHeap sc) (MockOutboxStorage sc) cfg mock_rx))
    (ticks k) w = Some (None, w\<lparr> calls := calls w @ repeated k cs \<rparr>)"
proof -
  let ?log = "\<lambda>w. w\<lparr> calls := calls w @ cs \<rparr> :: string mock_world"
  have "(?log ^^ k) w = w\<lparr> calls := calls w @ repeated k cs \<rparr>" for w
    by (induction k arbitrary: w) (simp_all del: funpow.simps(2) add: funpow_Suc_right)
  then show ?thesis
    by (simp add: ticks_def select_loop_replicate[where f = ?log] assms)
qed

lemma dlq_tick_quiet:
  "dlq_tick (DlqProcessor_new (MockDlqHeap quiet_heap) (MockOutboxStorage quiet_heap) cfg mock_rx) w =
     w\<lparr> calls := calls w @ [Drain (dlq_threshold cfg)] \<rparr>"
  by (simp add: dlq_tick_def DlqProcessor_new_def quiet_heap_def mock_defs)

lemma dlq_tick_entry:
  fixes sc :: "string mock_script"
  assumes "sc = no_expectations\<lparr> on_drain := returning (Inr [e]), on_quarantine := returning r \<rparr>"
  shows "dlq_tick (DlqProcessor_new (MockDlqHeap sc) (MockOutboxStorage sc) cfg mock_rx) w =
     w\<lparr> calls := calls w @ [Drain (dlq_threshold cfg), Quarantine [e]] \<rparr>"
  using assms by (simp add: dlq_tick_def DlqProcessor_new_def mock_defs)

lemmas dlq_test_run = run_dlq_def dlq_run_def on_interval_positive select_loop_append
  changed_arm_def finished_def dlq_test_config_def test_config_def
  still_running_def run_dlq_ticks[OF dlq_tick_quiet] run_dlq_ticks[OF dlq_tick_entry[OF refl]]

lemma dlq_rx [simp]:
  "dp_shutdown_rx (DlqProcessor_new hp st cfg rx) = rx" "dp_config (DlqProcessor_new hp st cfg rx) = cfg"
  by (simp_all add: DlqProcessor_new_def)

lemma dlq_quiet_tests:
  "dlq_run_exits_when_shutdown_flag_is_set_to_true k"
  "dlq_run_exits_when_sender_is_dropped k"
  "dlq_run_does_not_exit_on_shutdown_value_set_to_false k j"
  "run_skips_quarantine_when_drain_returns_empty_batch k"
  by (simp_all add: dlq_run_exits_when_shutdown_flag_is_set_to_true_def
      dlq_run_exits_when_sender_is_dropped_def dlq_run_does_not_exit_on_shutdown_value_set_to_false_def
      run_skips_quarantine_when_drain_returns_empty_batch_def dlq_test_run expectations quiet_def)

lemma dlq_entry_tests:
  "run_drains_heap_and_forwards_to_quarantine_events v7 k"
  "run_swallows_quarantine_errors_and_keeps_running v7"
  by (simp_all add: run_drains_heap_and_forwards_to_quarantine_events_def
      run_swallows_quarantine_errors_and_keeps_running_def dlq_test_run expectations quiet_def list_all_repeated)

lemma task_tests_pass: "gc_tests k j" "dlq_tests v7 k j"
  by (simp_all add: gc_tests_def dlq_tests_def collect_tests gc_loop_tests dlq_quiet_tests
      dlq_entry_tests)

end
