(* ===== verification/Manager_Tests.thy ===== *)
theory Manager_Tests
  imports Task_Tests
begin

text \<open>
  The unit tests of \<^verbatim>\<open>manager.rs\<close>, run on the model. A turn of a test's schedule is a pair: how many
  times the spawned garbage collector has run before the turn, and the arm of the \<open>select!\<close> that
  completes. The tests hold for every choice of both, so for every order in which \<open>tokio\<close> may poll.
\<close>

definition new_event_at :: "(nat \<Rightarrow> uuid) \<Rightarrow> instant \<Rightarrow> nat \<Rightarrow> string \<Rightarrow> string \<Rightarrow> string event" where
  "new_event_at v4 now n ty value = Event_new (v4 n) now (EventType_new ty) (Payload_new value) None"

definition four_events :: "(nat \<Rightarrow> uuid) \<Rightarrow> instant \<Rightarrow> string event list" where
  "four_events v4 now =
     [new_event_at v4 now 1 ''1'' ''test1'', new_event_at v4 now 2 ''2'' ''test2'',
      new_event_at v4 now 3 ''3'' ''test3'', new_event_at v4 now 4 ''4'' ''test4'']"

type_synonym turns = "(nat \<times> manager_arm) list"

definition gc_runs :: "string mock_script \<Rightarrow> nat \<Rightarrow> string mock_world \<Rightarrow> string mock_world" where
  "gc_runs sc k = (\<lambda>w. snd (collect_garbage (test_gc sc) w)) ^^ k"

definition built_manager :: "bool \<Rightarrow> string mock_script \<Rightarrow>
    outbox_error + (string mock_world, string) outbox_manager" where
  "built_manager dlq sc =
     (let b = set_shutdown_rx mock_rx (set_config test_config
            (set_publisher (MockTransport sc) (set_storage (MockOutboxStorage sc) Builder_new)))
      in build dlq (if dlq then set_dlq_heap (MockDlqHeap sc) b else b))"

definition run_manager :: "bool \<Rightarrow> string mock_script \<Rightarrow> turns \<Rightarrow> string mock_world \<Rightarrow>
    string mock_world task_outcome" where
  "run_manager dlq sc ws w =
     (case built_manager dlq sc of
        Inl e \<Rightarrow> Panic (display_outbox_error e)
      | Inr mg \<Rightarrow> manager_run mg None (\<lambda>n. id) (map (map_prod (gc_runs sc) id) ws) w)"

text \<open>\<open>manager.run().await\<close> returned \<open>Ok(())\<close> and left a log that meets the expectations.\<close>

definition returned_ok :: "'s task_outcome \<Rightarrow> ('s \<Rightarrow> bool) \<Rightarrow> bool" where
  "returned_ok run expected = (case run of Return (Some (Some (Inr _), w)) \<Rightarrow> expected w | _ \<Rightarrow> False)"

section \<open>The tests\<close>

definition test_event_send_success :: "bool \<Rightarrow> (nat \<Rightarrow> uuid) \<Rightarrow> instant \<Rightarrow> nat \<times> manager_arm \<Rightarrow>
    turns \<Rightarrow> bool" where
  "test_event_send_success dlq v4 now t1 rest =
     (let sc = no_expectations\<lparr> on_wait := returning (Inr ()),
            on_fetch := in_sequence [(Inr (four_events v4 now), True)] (returning (Inr [])),
            on_update := returning (Inr ()), on_collect := returning (Inr ()),
            on_publish := returning (Inr ()), on_success := returning (Inr ()) \<rparr>
      in returned_ok (run_manager dlq sc (t1 # rest) quiet) (\<lambda>w.
           withf is_Fetch (\<lambda>c. fetch_limit c = 100) w \<and>
           withf is_Update (\<lambda>c. length (update_ids c) = 4 \<and> update_to c = Sent) w \<and>
           map (\<lambda>c. let e = published_event c in (event_type_as_str (event_type e), as_value (payload e)))
             (called is_Published w) =
             [(''1'', ''test1''), (''2'', ''test2''), (''3'', ''test3''), (''4'', ''test4'')]))"

definition test_recovery_after_storage_error :: "bool \<Rightarrow> nat \<Rightarrow> nat \<Rightarrow> turns \<Rightarrow> bool" where
  "test_recovery_after_storage_error dlq i j rest =
     (let sc = no_expectations\<lparr>
            on_wait := in_sequence
              [(Inl (InfrastructureError ''Connection lost''), False), (Inr (), True)] unexpected,
            on_fetch := returning (Inr []), on_collect := returning (Inr ()) \<rparr>
      in returned_ok (run_manager dlq sc
             ((1, Poll_tick) # replicate i (0, Poll_tick) @ (0, Notification) #
               replicate j (0, Poll_tick) @ (0, Notification) # rest) quiet) (\<lambda>w.
           times is_Wait 2 w \<and> times is_Collect 1 w \<and> times is_Published 0 w))"

definition test_publish_failure :: "bool \<Rightarrow> (nat \<Rightarrow> uuid) \<Rightarrow> instant \<Rightarrow> nat \<times> manager_arm \<Rightarrow>
    turns \<Rightarrow> bool" where
  "test_publish_failure dlq v4 now t1 rest =
     (let sc = no_expectations\<lparr> on_wait := returning (Inr ()),
            on_fetch := in_sequence [(Inr (four_events v4 now), False)] (returning (Inr [])),
            on_collect := returning (Inr ()),
            on_update := (\<lambda>n. (Inr (), True)),
            on_publish := in_sequence
              [(Inr (), False), (Inr (), False),
               (Inl (InfrastructureError ''Connection lost''), False), (Inr (), False)] unexpected,
            on_success := returning (Inr ()), on_failure := returning (Inr ()) \<rparr>
      in returned_ok (run_manager dlq sc (t1 # rest) quiet) (\<lambda>w.
           times is_Fetch 1 w \<and> times is_Published 4 w \<and>
           withf is_Update (\<lambda>c. update_to c = Sent \<and>
             set (update_ids c) = {EventId (v4 1), EventId (v4 2), EventId (v4 4)} \<and>
             EventId (v4 3) \<notin> set (update_ids c)) w))"

definition shutdown_set_before_run_exits_without_fetch :: "bool \<Rightarrow> nat \<times> manager_arm \<Rightarrow> turns \<Rightarrow> bool" where
  "shutdown_set_before_run_exits_without_fetch dlq t1 rest =
     (let sc = no_expectations\<lparr> on_wait := returning (Inr ()), on_collect := returning (Inr ()) \<rparr>
      in returned_ok (run_manager dlq sc (t1 # rest) (send True quiet)) (\<lambda>w.
           times is_Fetch 0 w \<and> times is_Update 0 w))"

definition inner_loop_drains_until_empty_batch :: "bool \<Rightarrow> (nat \<Rightarrow> uuid) \<Rightarrow> instant \<Rightarrow>
    nat \<times> manager_arm \<Rightarrow> nat \<times> manager_arm \<Rightarrow> turns \<Rightarrow> bool" where
  "inner_loop_drains_until_empty_batch dlq v4 now t1 t2 rest =
     (let a1 = new_event_at v4 now 1 ''a1'' ''a1''; a2 = new_event_at v4 now 2 ''a2'' ''a2'';
          b1 = new_event_at v4 now 3 ''b1'' ''b1'';
          sc = no_expectations\<lparr> on_wait := returning (Inr ()), on_collect := returning (Inr ()),
            on_fetch := in_sequence
              [(Inr [a1, a2], False), (Inr [b1], False), (Inr [], True)] (returning (Inr [])),
            on_update := returning (Inr ()), on_publish := returning (Inr ()),
            on_success := returning (Inr ()), on_failure := returning (Inr ()) \<rparr>
      in returned_ok (run_manager dlq sc (t1 # t2 # rest) quiet) (\<lambda>w.
           times is_Fetch 3 w \<and> times is_Update 2 w \<and> times is_Published 3 w))"

definition fetch_error_inside_loop_is_recoverable :: "bool \<Rightarrow> nat \<times> manager_arm \<Rightarrow>
    nat \<times> manager_arm \<Rightarrow> nat \<times> manager_arm \<Rightarrow> turns \<Rightarrow> bool" where
  "fetch_error_inside_loop_is_recoverable dlq t1 t2 t3 rest =
     (let sc = no_expectations\<lparr> on_wait := returning (Inr ()), on_collect := returning (Inr ()),
            on_fetch := in_sequence [(Inl (DatabaseError ''transient''), False)]
              (\<lambda>n. (Inr [], True)) \<rparr>
      in returned_ok (run_manager dlq sc (t1 # t2 # t3 # rest) quiet) (\<lambda>w.
           times is_Fetch 2 w \<and> times is_Update 0 w))"

definition manager_tests :: "bool \<Rightarrow> (nat \<Rightarrow> uuid) \<Rightarrow> instant \<Rightarrow> nat \<Rightarrow> nat \<Rightarrow>
    nat \<times> manager_arm \<Rightarrow> nat \<times> manager_arm \<Rightarrow> nat \<times> manager_arm \<Rightarrow> turns \<Rightarrow> bool" where
  "manager_tests dlq v4 now i j t1 t2 t3 rest \<longleftrightarrow>
     test_event_send_success dlq v4 now t1 rest \<and>
     test_recovery_after_storage_error dlq i j rest \<and>
     test_publish_failure dlq v4 now t1 rest \<and>
     shutdown_set_before_run_exits_without_fetch dlq t1 rest \<and>
     inner_loop_drains_until_empty_batch dlq v4 now t1 t2 rest \<and>
     fetch_error_inside_loop_is_recoverable dlq t1 t2 t3 rest"

section \<open>Running them\<close>

definition arm_calls :: "manager_arm \<Rightarrow> string mock_call list" where
  "arm_calls arm = (if arm = Notification then [Wait ''outbox_event''] else [])"

lemma filter_arm_calls [simp]:
  "(\<And>ch. \<not> P (Wait ch)) \<Longrightarrow> filter P (arm_calls arm) = []"
  by (simp add: arm_calls_def)

definition test_manager :: "bool \<Rightarrow> string mock_script \<Rightarrow> (string mock_world, string) outbox_manager" where
  "test_manager dlq sc = OutboxManager_new (MockOutboxStorage sc) (MockTransport sc) test_config
     (cfg_dlq dlq (MockDlqHeap sc)) mock_rx"

lemma built_manager: "built_manager dlq sc = Inr (test_manager dlq sc)"
  by (simp add: built_manager_def test_manager_def builder_run cfg_dlq_def Let_def)

lemma test_manager_simps [simp]:
  "mg_storage (test_manager dlq sc) = MockOutboxStorage sc"
  "mg_publisher (test_manager dlq sc) = MockTransport sc"
  "mg_config (test_manager dlq sc) = test_config"
  "mg_dlq_heap (test_manager dlq sc) = cfg_dlq dlq (MockDlqHeap sc)"
  "mg_shutdown_rx (test_manager dlq sc) = mock_rx"
  by (simp_all add: test_manager_def OutboxManager_new_def)

lemma gc_runs_log:
  assumes "on_collect sc = returning r"
  shows "gc_runs sc k w = w\<lparr> calls := calls w @ replicate k Collect \<rparr>"
proof -
  have "(\<lambda>w. snd (collect_garbage (test_gc sc) w)) = (\<lambda>w. w\<lparr> calls := calls w @ [Collect] \<rparr>)"
    using assms
    by (simp add: test_gc_def GarbageCollector_new_def collect_garbage_def MockOutboxStorage_def
        answer_def Let_def)
  then show ?thesis
    unfolding gc_runs_def
    by (induction k arbitrary: w) (simp_all del: funpow.simps(2) add: funpow_Suc_right)
qed

text \<open>A turn on any arm, running or stopped, when \<open>wait_for_notification\<close> succeeds.\<close>

lemma turn_running:
  assumes "on_wait sc = returning (Inr ())" and "\<not> stop_sent w" and "\<not> tx_dropped w"
  shows "manager_turn (test_manager dlq sc) m sleep arm w =
    drain_then (test_manager dlq sc) m sleep (w\<lparr> calls := calls w @ arm_calls arm \<rparr>)"
  using assms
  by (cases w; cases arm)
    (simp_all add: arm_calls_def MockOutboxStorage_def answer_def changed_arm_def Let_def)

lemma turn_stopped:
  assumes "on_wait sc = returning (Inr ())" and "stop_sent w"
  shows "manager_turn (test_manager dlq sc) m sleep arm w =
    Some (Exit, w\<lparr> calls := calls w @ arm_calls arm \<rparr>)"
  using assms
  by (cases arm)
    (simp_all add: arm_calls_def MockOutboxStorage_def answer_def changed_arm_def Let_def
      drain_then_def drain.simps)

definition test_drain :: "bool \<Rightarrow> string mock_script \<Rightarrow> string mock_world \<Rightarrow>
    (drained \<times> string mock_world) option" where
  "test_drain dlq sc = drain (OutboxProcessor_new (MockOutboxStorage sc) (MockTransport sc) test_config)
     (cfg_dlq dlq (MockDlqHeap sc)) None mock_rx (\<lambda>n. id)"

lemma drain_then_test:
  "drain_then (test_manager dlq sc) None (\<lambda>n. id) w =
     map_option (\<lambda>(d, t). (case d of Shutdown \<Rightarrow> Exit | Back_to_waiting \<Rightarrow> Continue, t))
       (test_drain dlq sc w)"
  by (simp add: drain_then_def test_drain_def)

lemma test_drain_stopped: "stop_sent w \<Longrightarrow> test_drain dlq sc w = Some (Shutdown, w)"
  by (simp add: test_drain_def drain.simps)

lemma test_drain_batch:
  assumes "\<not> stop_sent w"
  shows "test_drain dlq sc w =
    (case process_pending_events
        (OutboxProcessor_new (MockOutboxStorage sc) (MockTransport sc) test_config)
        (cfg_dlq dlq (MockDlqHeap sc)) None w of
      (r, t) \<Rightarrow> (case r of
         Inl e \<Rightarrow> Some (Back_to_waiting, t)
       | Inr n \<Rightarrow> if n = 0 then Some (Back_to_waiting, t) else test_drain dlq sc t))"
  unfolding test_drain_def
  by (subst drain.simps) (auto simp: assms split: sum.split prod.split)

lemmas manager_test_run = on_interval_positive run_manager_def built_manager manager_run_def returned_ok_def gc_runs_log
  turn_running turn_stopped drain_then_test test_drain_batch test_drain_stopped
  new_event_at_def Event_new_def EventType_new_def Payload_new_def EventId_default_def
  filter_replicate four_events_def

lemma event_send_success_test: "test_event_send_success dlq v4 now t1 rest"
  by (cases t1; cases dlq)
    (simp_all add: test_event_send_success_def manager_test_run processor_test_run)

lemma publish_failure_test:
  assumes "fresh_ids v4"
  shows "test_publish_failure dlq v4 now t1 rest"
  by (cases t1; cases dlq)
    (simp_all add: test_publish_failure_def manager_test_run processor_test_run insert_commute
      fresh_ids_neq[OF assms])

lemma shutdown_before_run_test: "shutdown_set_before_run_exits_without_fetch dlq t1 rest"
  by (cases t1; cases dlq)
    (simp_all add: shutdown_set_before_run_exits_without_fetch_def manager_test_run processor_test_run)

lemma inner_loop_test: "inner_loop_drains_until_empty_batch dlq v4 now t1 t2 rest"
  by (cases t1; cases t2; cases dlq)
    (simp_all add: inner_loop_drains_until_empty_batch_def manager_test_run processor_test_run)

lemma fetch_error_loop_test: "fetch_error_inside_loop_is_recoverable dlq t1 t2 t3 rest"
  by (cases t1; cases t2; cases t3; cases dlq)
    (simp_all add: fetch_error_inside_loop_is_recoverable_def manager_test_run processor_test_run)

text \<open>Polling ticks that find nothing, before and between the two notifications.\<close>

lemma empty_drain:
  assumes "on_fetch sc = returning (Inr [])" and "\<not> stop_sent w"
  shows "test_drain dlq sc w = Some (Back_to_waiting, w\<lparr> calls := calls w @ [Fetch 100] \<rparr>)"
  using assms by (cases w) (simp add: test_drain_batch processor_test_run)

lemma empty_polls:
  assumes "on_fetch sc = returning (Inr [])" and "\<not> stop_sent w"
  shows "select_loop (manager_turn (test_manager dlq sc) None (\<lambda>n. id)) (replicate i (id, Poll_tick)) w =
    Some (None, w\<lparr> calls := calls w @ replicate i (Fetch 100) \<rparr>)"
  using assms(2)
  by (induction i arbitrary: w) (simp_all add: drain_then_test empty_drain[OF assms(1)])

lemma gc_runs_0: "gc_runs sc 0 = id"
  by (simp add: gc_runs_def id_def)

lemma recovery_test: "test_recovery_after_storage_error dlq i j rest"
  by (simp add: test_recovery_after_storage_error_def run_manager_def built_manager manager_run_def
      returned_ok_def on_interval_positive test_config_def gc_runs_0 gc_runs_log empty_drain empty_polls select_loop_append
      drain_then_test test_drain_stopped filter_replicate mock_defs expectations)

lemma manager_tests_pass: "fresh_ids v4 \<Longrightarrow> manager_tests dlq v4 now i j t1 t2 t3 rest"
  by (simp add: manager_tests_def event_send_success_test recovery_test publish_failure_test
      shutdown_before_run_test inner_loop_test fetch_error_loop_test)

end
