(* ===== verification/Model_Tests.thy ===== *)
theory Model_Tests
  imports Outbox_Traits
begin

text \<open>
  The unit tests of the data modules, run on the model: \<^verbatim>\<open>object.rs\<close>, \<^verbatim>\<open>model.rs\<close>, \<^verbatim>\<open>error.rs\<close>,
  \<^verbatim>\<open>config.rs\<close> and \<^verbatim>\<open>idempotency/storage.rs\<close>. The random ids and the clock readings a test takes are its
  arguments. A derived \<open>Clone\<close> or \<open>Copy\<close> gives an equal value, so a clone is the value itself. The two
  tests of the derived \<open>serde\<close> implementations and the compile-time test of \<open>std::error::Error\<close> are not
  among them.
\<close>

section \<open>Identifiers (object.rs)\<close>

text \<open>The version number of a UUID: bits 76 to 79 of its value.\<close>

definition get_version_num :: "uuid \<Rightarrow> nat" where
  "get_version_num u = unat (take_bit 4 (drop_bit 76 u))"

definition event_id_default_generates_unique_uuids_across_calls :: "uuid \<Rightarrow> uuid \<Rightarrow> bool" where
  "event_id_default_generates_unique_uuids_across_calls v4 v4' =
     (let a = EventId_default v4; b = EventId_default v4' in a \<noteq> b \<and> as_uuid a \<noteq> as_uuid b)"

definition event_id_load_preserves_inner_uuid :: "uuid \<Rightarrow> bool" where
  "event_id_load_preserves_inner_uuid uuid = (let id = EventId_load uuid in as_uuid id = uuid)"

definition event_id_equality_reflects_inner_uuid :: "uuid \<Rightarrow> bool" where
  "event_id_equality_reflects_inner_uuid uuid =
     (let a = EventId_load uuid; b = EventId_load uuid; copied = a in a = b \<and> copied = a)"

definition event_id_default_is_v4 :: "uuid \<Rightarrow> bool" where
  "event_id_default_is_v4 v4 = (let id = EventId_default v4 in get_version_num (as_uuid id) = 4)"

section \<open>Tokens, types and payloads (object.rs)\<close>

definition crab :: string where
  "crab = [CHR 0xF0, CHR 0x9F, CHR 0xA6, CHR 0x80]"

definition idempotency_token_new_preserves_string :: bool where
  "idempotency_token_new_preserves_string =
     list_all (\<lambda>raw. let tok = IdempotencyToken_new raw in token_as_str tok = raw)
       [''abc'', '''', ''with spaces and '' @ crab]"

definition idempotency_token_as_bytes_matches_as_str_bytes :: bool where
  "idempotency_token_as_bytes_matches_as_str_bytes =
     (let tok = IdempotencyToken_new ''hello''
      in token_as_bytes tok = [104, 101, 108, 108, 111] \<and>
         token_as_bytes tok = map of_char (token_as_str tok))"

definition event_type_new_preserves_str :: bool where
  "event_type_new_preserves_str =
     (let et = EventType_new ''order.created'' in event_type_as_str et = ''order.created'')"

definition event_type_load_preserves_str :: bool where
  "event_type_load_preserves_str =
     (let et = EventType_load ''order.created'' in event_type_as_str et = ''order.created'')"

definition event_type_new_and_load_produce_equal_string_views :: bool where
  "event_type_new_and_load_produce_equal_string_views =
     (let a = EventType_new ''x''; b = EventType_load ''x'' in event_type_as_str a = event_type_as_str b)"

definition event_type_display_matches_as_str :: bool where
  "event_type_display_matches_as_str =
     (let et = EventType_new ''payment.settled'' in display_event_type et = event_type_as_str et)"

definition payload_new_preserves_value :: bool where
  "payload_new_preserves_value = (let p = Payload_new (42 :: 32 word) in as_value p = 42)"

definition payload_from_ref_clones_without_consuming_source :: bool where
  "payload_from_ref_clones_without_consuming_source =
     (let source = ''keep-me''; p = Payload_from_ref source in as_value p = source \<and> source = ''keep-me'')"

definition object_tests :: "uuid \<Rightarrow> uuid \<Rightarrow> bool" where
  "object_tests v4 v4' \<longleftrightarrow>
     event_id_default_generates_unique_uuids_across_calls v4 v4' \<and>
     event_id_load_preserves_inner_uuid v4 \<and> event_id_equality_reflects_inner_uuid v4 \<and>
     event_id_default_is_v4 v4 \<and> idempotency_token_new_preserves_string \<and>
     idempotency_token_as_bytes_matches_as_str_bytes \<and> event_type_new_preserves_str \<and>
     event_type_load_preserves_str \<and> event_type_new_and_load_produce_equal_string_views \<and>
     event_type_display_matches_as_str \<and> payload_new_preserves_value \<and>
     payload_from_ref_clones_without_consuming_source"

section \<open>Events (model.rs)\<close>

record named_payload =
  payload_value :: string

definition payload_of :: "string \<Rightarrow> named_payload payload" where
  "payload_of v = Payload_new \<lparr> payload_value = v \<rparr>"

definition event_new_sets_status_to_pending :: "uuid \<Rightarrow> instant \<Rightarrow> bool" where
  "event_new_sets_status_to_pending v4 now =
     (let e = Event_new v4 now (EventType_new ''t'') (payload_of ''p'') None in status e = Pending)"

definition event_new_sets_locked_until_to_unix_epoch :: "uuid \<Rightarrow> instant \<Rightarrow> bool" where
  "event_new_sets_locked_until_to_unix_epoch v4 now =
     (let e = Event_new v4 now (EventType_new ''t'') (payload_of ''p'') None in locked_until e = UNIX_EPOCH)"

definition event_new_sets_created_at_within_wall_clock_window ::
  "uuid \<Rightarrow> instant \<Rightarrow> instant \<Rightarrow> instant \<Rightarrow> bool" where
  "event_new_sets_created_at_within_wall_clock_window v4 before now after =
     (let e = Event_new v4 now (EventType_new ''t'') (payload_of ''p'') None
      in created_at e \<ge> before \<and> created_at e \<le> after)"

definition event_new_assigns_unique_ids_across_calls :: "uuid \<Rightarrow> uuid \<Rightarrow> instant \<Rightarrow> bool" where
  "event_new_assigns_unique_ids_across_calls v4 v4' now =
     (let a = Event_new v4 now (EventType_new ''t'') (payload_of ''p'') None;
          b = Event_new v4' now (EventType_new ''t'') (payload_of ''p'') None
      in eid a \<noteq> eid b)"

definition event_new_preserves_event_type_and_payload :: "uuid \<Rightarrow> instant \<Rightarrow> bool" where
  "event_new_preserves_event_type_and_payload v4 now =
     (let e = Event_new v4 now (EventType_new ''order.created'') (payload_of ''hello'') None
      in event_type_as_str (event_type e) = ''order.created'' \<and> payload_value (as_value (payload e)) = ''hello'')"

definition event_new_preserves_idempotency_token_some :: "uuid \<Rightarrow> instant \<Rightarrow> bool" where
  "event_new_preserves_idempotency_token_some v4 now =
     (let tok = IdempotencyToken_new ''abc'';
          e = Event_new v4 now (EventType_new ''t'') (payload_of ''p'') (Some tok)
      in map_option token_as_str (idempotency_token e) = Some ''abc'')"

definition event_new_preserves_idempotency_token_none :: "uuid \<Rightarrow> instant \<Rightarrow> bool" where
  "event_new_preserves_idempotency_token_none v4 now =
     (let e = Event_new v4 now (EventType_new ''t'') (payload_of ''p'') None in idempotency_token e = None)"

definition event_status_partial_eq :: bool where
  "event_status_partial_eq =
     list_all (\<lambda>(a, b, expected). (a = b) = expected)
       [(Pending, Pending, True), (Processing, Processing, True), (Sent, Sent, True),
        (Pending, Processing, False), (Processing, Sent, False), (Pending, Sent, False)]"

definition model_tests :: "uuid \<Rightarrow> uuid \<Rightarrow> instant \<Rightarrow> instant \<Rightarrow> instant \<Rightarrow> bool" where
  "model_tests v4 v4' before now after \<longleftrightarrow>
     event_new_sets_status_to_pending v4 now \<and> event_new_sets_locked_until_to_unix_epoch v4 now \<and>
     event_new_sets_created_at_within_wall_clock_window v4 before now after \<and>
     event_new_assigns_unique_ids_across_calls v4 v4' now \<and>
     event_new_preserves_event_type_and_payload v4 now \<and>
     event_new_preserves_idempotency_token_some v4 now \<and>
     event_new_preserves_idempotency_token_none v4 now \<and> event_status_partial_eq"

section \<open>Errors (error.rs)\<close>

definition display_infrastructure_error_includes_inner_message :: bool where
  "display_infrastructure_error_includes_inner_message =
     (let e = InfrastructureError ''redis down''
      in display_outbox_error e = ''Infrastructure error: redis down'')"

definition display_duplicate_event_is_static_string :: bool where
  "display_duplicate_event_is_static_string =
     (let e = DuplicateEvent in display_outbox_error e = ''Duplicate error'')"

definition display_database_error_includes_inner_message :: bool where
  "display_database_error_includes_inner_message =
     (let e = DatabaseError ''pk conflict'' in display_outbox_error e = ''Database error: pk conflict'')"

definition display_broker_error_includes_inner_message :: bool where
  "display_broker_error_includes_inner_message =
     (let e = BrokerError ''kafka timeout'' in display_outbox_error e = ''Broker error: kafka timeout'')"

definition display_config_error_includes_inner_message :: bool where
  "display_config_error_includes_inner_message =
     (let e = ConfigError ''missing field'' in display_outbox_error e = ''Config error: missing field'')"

definition error_tests :: bool where
  "error_tests \<longleftrightarrow>
     display_infrastructure_error_includes_inner_message \<and> display_duplicate_event_is_static_string \<and>
     display_database_error_includes_inner_message \<and> display_broker_error_includes_inner_message \<and>
     display_config_error_includes_inner_message"

section \<open>Configuration (config.rs)\<close>

definition default_cfg :: "unit outbox_config" where
  "default_cfg = OutboxConfig_default"

definition default_batch_size_is_100 :: bool where
  "default_batch_size_is_100 = (batch_size default_cfg = 100)"

definition default_retention_days_is_7 :: bool where
  "default_retention_days_is_7 = (retention_days default_cfg = 7)"

definition default_gc_interval_secs_is_3600 :: bool where
  "default_gc_interval_secs_is_3600 = (gc_interval_secs default_cfg = 3600)"

definition default_poll_interval_secs_is_10 :: bool where
  "default_poll_interval_secs_is_10 = (poll_interval_secs default_cfg = 10)"

definition default_lock_timeout_mins_is_5 :: bool where
  "default_lock_timeout_mins_is_5 = (lock_timeout_mins default_cfg = 5)"

definition default_idempotency_strategy_is_none :: bool where
  "default_idempotency_strategy_is_none =
     (case idempotency_strategy default_cfg of NoToken \<Rightarrow> True | _ \<Rightarrow> False)"

definition clone_preserves_scalar_fields :: bool where
  "clone_preserves_scalar_fields =
     (let cfg = \<lparr> batch_size = 42, retention_days = 3, gc_interval_secs = 99, poll_interval_secs = 1,
            lock_timeout_mins = 2, idempotency_strategy = UuidV7, dlq_threshold = 10, dlq_interval_secs = 1 \<rparr>
            :: unit outbox_config;
          cloned = cfg
      in batch_size cloned = 42 \<and> retention_days cloned = 3 \<and> gc_interval_secs cloned = 99 \<and>
         poll_interval_secs cloned = 1 \<and> lock_timeout_mins cloned = 2 \<and> dlq_threshold cloned = 10 \<and>
         dlq_interval_secs cloned = 1 \<and>
         (case idempotency_strategy cloned of UuidV7 \<Rightarrow> True | _ \<Rightarrow> False))"

definition clone_preserves_custom_strategy_function_pointer :: "uuid \<Rightarrow> instant \<Rightarrow> bool" where
  "clone_preserves_custom_strategy_function_pointer v4 now =
     (let derive = (\<lambda>_. ''fp'');
          cfg = \<lparr> batch_size = 1, retention_days = 1, gc_interval_secs = 1, poll_interval_secs = 1,
            lock_timeout_mins = 1, idempotency_strategy = Custom derive, dlq_threshold = 10,
            dlq_interval_secs = 1 \<rparr> :: unit outbox_config;
          cloned = cfg
      in case idempotency_strategy cloned of
           Custom f \<Rightarrow> f (Event_new v4 now (EventType_new ''t'') (Payload_new ()) None) = ''fp''
         | _ \<Rightarrow> False)"

definition config_tests :: "uuid \<Rightarrow> instant \<Rightarrow> bool" where
  "config_tests v4 now \<longleftrightarrow>
     default_batch_size_is_100 \<and> default_retention_days_is_7 \<and> default_gc_interval_secs_is_3600 \<and>
     default_poll_interval_secs_is_10 \<and> default_lock_timeout_mins_is_5 \<and>
     default_idempotency_strategy_is_none \<and> clone_preserves_scalar_fields \<and>
     clone_preserves_custom_strategy_function_pointer v4 now"

section \<open>The provider without a backend (idempotency/storage.rs)\<close>

definition no_idempotency_returns_ok_true_for_any_token :: "'s \<Rightarrow> bool" where
  "no_idempotency_returns_ok_true_for_any_token s =
     list_all (\<lambda>raw. fst (try_reserve NoIdempotency (IdempotencyToken_new raw) s) = Inr True)
       [''any-token'', '''', ''token-'' @ crab]"

definition no_idempotency_returns_ok_true_across_repeated_calls_with_same_token :: "'s \<Rightarrow> bool" where
  "no_idempotency_returns_ok_true_across_repeated_calls_with_same_token s =
     (let token = IdempotencyToken_new ''same'';
          (first, t) = try_reserve NoIdempotency token s;
          (second, u) = try_reserve NoIdempotency token t
      in first = Inr True \<and> second = Inr True)"

definition no_idempotency_tests :: "'s \<Rightarrow> bool" where
  "no_idempotency_tests s \<longleftrightarrow> no_idempotency_returns_ok_true_for_any_token s \<and>
     no_idempotency_returns_ok_true_across_repeated_calls_with_same_token s"

section \<open>They pass\<close>

lemma object_tests_pass: "get_version_num v4 = 4 \<Longrightarrow> v4 \<noteq> v4' \<Longrightarrow> object_tests v4 v4'"
  by (simp add: object_tests_def event_id_default_generates_unique_uuids_across_calls_def
      event_id_load_preserves_inner_uuid_def event_id_equality_reflects_inner_uuid_def
      event_id_default_is_v4_def idempotency_token_new_preserves_string_def
      idempotency_token_as_bytes_matches_as_str_bytes_def event_type_new_preserves_str_def
      event_type_load_preserves_str_def event_type_new_and_load_produce_equal_string_views_def
      event_type_display_matches_as_str_def payload_new_preserves_value_def
      payload_from_ref_clones_without_consuming_source_def EventId_default_def IdempotencyToken_new_def
      EventType_new_def EventType_load_def Payload_new_def Payload_from_ref_def)

lemma model_tests_pass: "v4 \<noteq> v4' \<Longrightarrow> before \<le> now \<Longrightarrow> now \<le> after \<Longrightarrow> model_tests v4 v4' before now after"
  by (simp add: model_tests_def event_new_sets_status_to_pending_def
      event_new_sets_locked_until_to_unix_epoch_def event_new_sets_created_at_within_wall_clock_window_def
      event_new_assigns_unique_ids_across_calls_def event_new_preserves_event_type_and_payload_def
      event_new_preserves_idempotency_token_some_def event_new_preserves_idempotency_token_none_def
      event_status_partial_eq_def Event_new_def EventId_default_def EventType_new_def payload_of_def
      Payload_new_def IdempotencyToken_new_def)

lemma error_tests_pass: error_tests
  by (simp add: error_tests_def display_infrastructure_error_includes_inner_message_def
      display_duplicate_event_is_static_string_def display_database_error_includes_inner_message_def
      display_broker_error_includes_inner_message_def display_config_error_includes_inner_message_def)

lemma config_tests_pass: "config_tests v4 now"
  by (simp add: config_tests_def default_batch_size_is_100_def default_retention_days_is_7_def
      default_gc_interval_secs_is_3600_def default_poll_interval_secs_is_10_def
      default_lock_timeout_mins_is_5_def default_idempotency_strategy_is_none_def
      clone_preserves_scalar_fields_def clone_preserves_custom_strategy_function_pointer_def default_cfg_def
      OutboxConfig_default_def)

lemma no_idempotency_tests_pass: "no_idempotency_tests s"
  by (simp add: no_idempotency_tests_def no_idempotency_returns_ok_true_for_any_token_def
      no_idempotency_returns_ok_true_across_repeated_calls_with_same_token_def NoIdempotency_def)

end
