(* ===== verification/Conformance_Properties.thy ===== *)
theory Conformance_Properties
  imports Manager_Tests Model_Tests
begin

text \<open>
  The repository's own unit tests, run on the model: \<^verbatim>\<open>processor.rs\<close>, \<^verbatim>\<open>manager.rs\<close>, \<^verbatim>\<open>gc.rs\<close> and
  \<^verbatim>\<open>dlq/processor.rs\<close> (the worker), \<^verbatim>\<open>service.rs\<close>, \<^verbatim>\<open>strategy.rs\<close> and \<^verbatim>\<open>builder.rs\<close> (the intake), and the data modules. A
  Rust test samples the random ids, the clock and the order in which \<open>tokio\<close> polls; here it passes
  for all of them.
\<close>

definition some_ids :: "nat \<Rightarrow> uuid" where
  "some_ids n = of_nat n"




definition host_with :: "char \<Rightarrow> host" where
  "host_with c = \<lparr> now_v7 = replicate 36 c, new_v4 = 1, now_utc = 0 \<rparr>"


end
