(* ===== verification/Spec2Isabelle.thy ===== *)
theory Spec2Isabelle
  imports Storage_Properties Intake_Properties Delivery_Properties Quarantine_Properties
    Settling_Properties Example_Properties Runtime_Properties Conformance_Properties
begin

text \<open>
  \<^bold>\<open>oxide-outbox: a verification library for the transactional outbox\<close>

  \<^bold>\<open>The program.\<close> A service stores an event in the same database as its own data
  (\<open>OutboxService::add_event\<close>); a worker (\<open>OutboxManager\<close>) fetches stored events, publishes them to
  a broker and marks them \<open>Sent\<close>; a collector deletes old \<open>Sent\<close> rows; a reaper moves events that
  keep failing to a dead-letter table. \<^verbatim>\<open>outbox-core\<close> holds the logic behind traits; the crates
  \<^verbatim>\<open>outbox-postgres\<close>, \<^verbatim>\<open>outbox-redis\<close> and \<^verbatim>\<open>outbox-kafka\<close> implement the traits.

  \<^bold>\<open>The model.\<close> A call that may fail and acts on the outside is a function from the world before it
  to a result (\<open>Inl\<close> the error, \<open>Inr\<close> the value) and the world after it; \<open>?\<close> is \<open>and_then\<close>; a panic
  is the constructor \<open>Panic\<close>. Machine integers are words. A cargo feature is an argument (\<open>dlq\<close>:
  whether there is a heap; \<open>metrics\<close>: whether there is a recorder; \<open>moka\<close>: whether there is a cache).

  \<^item> \<open>Outbox_Prelude\<close>: calls, lists.
  \<^item> \<open>Outbox_Types\<close>: \<^verbatim>\<open>outbox-core/src/{object,model,error,config}.rs\<close>, \<^verbatim>\<open>dlq/model.rs\<close>.
  \<^item> \<open>Outbox_Traits\<close>: the traits as records of methods, and their documented contracts as the locales
    \<open>storage_contract\<close>, \<open>transport_contract\<close>, \<open>dlq_heap_contract\<close>, \<open>reservation_contract\<close>.
  \<^item> \<open>Service\<close>: \<^verbatim>\<open>service.rs\<close>, \<^verbatim>\<open>idempotency/strategy.rs\<close>.
  \<^item> \<open>Processor\<close>: \<^verbatim>\<open>processor.rs\<close>; the locale \<open>worker_contract\<close> has the effect of a batch.
  \<^item> \<open>Select_Loop\<close>, \<open>Background_Tasks\<close>, \<open>Manager\<close>: the loops of \<^verbatim>\<open>gc.rs\<close>, \<^verbatim>\<open>dlq/processor.rs\<close> and
    \<^verbatim>\<open>manager.rs\<close>, and \<^verbatim>\<open>builder.rs\<close>. A schedule lists which arm of the \<open>select!\<close> completes and what
    other tasks did before. The drain loop may diverge and is a partial function (\<open>None\<close>: it never
    returns); \<open>drain_contract\<close> says when it returns.
  \<^item> \<open>Delivery\<close>, \<open>Settling\<close>: what the drain achieves where no call fails (\<open>delivery_contract\<close>), and what
    repeated drains and the reaper's tick achieve together (\<open>settling_contract\<close>): the invariant of a
    batch, carried through the drain by its measure, then through polls of the manager in any rhythm
    (a row left alone ripens, and any stretch of polls as long as the lock timeout attempts it).
  \<^item> \<open>Postgres\<close>: \<^verbatim>\<open>outbox-postgres/src/lib.rs\<close>, each SQL statement a function on the tables.
    \<open>pg_script\<close> gives each statement its delay, its fault (refused, or committed with the
    acknowledgement lost), the rows other transactions hold and the order rows are scanned in; past
    its end statements are quiet.
  \<^item> \<open>Schema\<close>: the keys the migrations declare, kept by every call of the adapter. \<open>Notifications\<close>: the
    migration's notification trigger, and the worker that listens to it as a step relation.
    \<open>Postgres_Delivery\<close>: the statements when nothing interferes.
  \<^item> \<open>Redis\<close>, \<open>Kafka\<close>: \<^verbatim>\<open>outbox-redis\<close>, \<^verbatim>\<open>outbox-kafka\<close>. \<open>Examples\<close>, \<open>Example_Programs\<close>: \<^verbatim>\<open>example/*\<close>, first
    the transports, configurations and requests, then each \<open>main\<close> from its first connection to its result.
  \<^item> \<open>Interleaving\<close>: a deployment as a step relation, one backend call per step (any number of
    workers, producers, collector, reaper, crashes, time), the worker's calls being \<open>worker_step\<close>. \<open>Leases\<close>: what
    its workers hold (\<open>hand\<close>), and the locale \<open>lease_contract\<close>: a claim is exclusive for a lock period.
    \<open>Deployment\<close>: each step over PostgreSQL is at most one adapter call, so what the calls keep (clock,
    locks, keys, notifications) every interleaving keeps; \<open>lease_contract\<close> is interpreted there.
  \<^item> \<open>World\<close>, \<open>Healthy_World\<close>: one executable environment (channel, Kafka broker, Redis keyspace,
    recorder) in which every contract is interpreted on the model's own storage, heap, provider and
    transports. It is not code of the repository. A \<open>broker\<close> names the transport of a deployment (the
    channel publishers of the examples or a Kafka topic) and \<open>published\<close> what its broker has taken;
    \<open>world_healthy\<close> is a world in which no call fails. \<open>Samples\<close>: concrete inputs for the witnesses.
  \<^item> \<open>Mocks\<close>, \<open>Batch_Tests\<close>, \<open>Intake_Tests\<close>, \<open>Task_Tests\<close>, \<open>Manager_Tests\<close>, \<open>Model_Tests\<close>: doubles of the traits as
    \<^verbatim>\<open>mockall\<close> makes them, and the repository's unit tests as boolean functions of what a Rust test
    leaves to chance (random ids, clock, ticks, the arm a \<open>select!\<close> takes).

  \<^bold>\<open>What is shown.\<close> Here: no event is lost and nothing unpublished is marked \<open>Sent\<close> under any
  interleaving; within a lock period no two workers hold an event and none is published twice; once
  calls stop failing, everything that was ever accounted for is published or dead-lettered; and the
  call-by-call worker refines \<open>process_pending_events\<close>. \<open>Storage_Properties\<close>:
  the exact effect of every PostgreSQL statement, disjointness of claims under a lock, atomic
  quarantine, the keys of the schema, token uniqueness, the insert/fetch round trip, poison rows,
  the listener slot, and that no notification is lost between drains.
  \<open>Intake_Properties\<close>: deduplication within and after the time to live of a token, what a failed
  insert does to it, strategies. \<open>Example_Properties\<close>: the example programs, run to their end.
  \<open>Delivery_Properties\<close>: the batch, a failing heap, termination and divergence of the drain, and that
  it delivers its backlog. \<open>Settling_Properties\<close>: on a good day every event ends published once and
  \<open>Sent\<close>, or dead-lettered; what \<open>add_event\<close> accepted reaches the broker.
  \<open>Quarantine_Properties\<close>: counters, drain and reaper. \<open>Runtime_Properties\<close>: the loops, the builder,
  Kafka. \<open>Conformance_Properties\<close>: the unit tests pass on the model, whatever chance decides.

  \<^bold>\<open>Parameters.\<close> \<open>tokio\<close>, \<open>sqlx\<close>, \<open>redis\<close>, \<open>moka\<close>, \<open>rdkafka\<close>, \<open>serde_json\<close>, \<open>uuid\<close>, \<open>metrics\<close> and the
  servers are arguments with their documented behaviour as locale assumptions. Redis scores count
  exactly up to \<open>2 ^ 53\<close>, the bound in the heap's laws. No fuel is used.

  \<^bold>\<open>Not modelled.\<close> Outside \<open>Notifications\<close> and \<open>Deployment\<close> the trigger of the migration does not appear (a
  wait succeeds or fails as scripted); expiry of a Redis key while a command on it is under way; logging, also that
  of the examples; the four unit tests of derived or library code
  (\<open>serde\<close>, \<open>std::error::Error\<close>, parsing a generated UUID); the metrics example (a hello-world) and the
  crate roots.
\<close>

section \<open>The deployment as a whole\<close>

text \<open>
  A deployment that is put to work: well-formed tables, nothing marked \<open>Sent\<close> that the broker has
  not taken (a fresh database, for one), and no worker in the middle of a batch.
\<close>

definition started :: "'p broker \<Rightarrow> (('p, 'j) world, 'p) system \<Rightarrow> bool" where
  "started b S \<longleftrightarrow> pg_ok (shared S) \<and>
     (\<forall>i. pg_status (shared S) i = Some Sent \<longrightarrow> i \<in> set (published b (shared S))) \<and>
     (\<forall>k. workers S k = Idle)"

text \<open>An event is accounted for when it is stored, dead-lettered, or was taken by the broker.\<close>

definition accounted :: "'p broker \<Rightarrow> ('p, 'j) world \<Rightarrow> event_id \<Rightarrow> bool" where
  "accounted b s i \<longleftrightarrow> pg_status s i \<noteq> None \<or> i \<in> pg_dead s \<or> i \<in> set (published b s)"

lemma started_inv:
  assumes "started b S"
  shows "system_contract.sys_inv pg_status pg_ok (published b) S"
  unfolding sys.sys_inv_def sys.sent_accepted_def
  using assms by (auto simp: started_def)

lemma safe_accounted: "system_contract.safe pg_status pg_dead (published b) s i = accounted b s i"
  unfolding sys.safe_def by (simp add: accounted_def)

text \<open>
  C1. No event is ever lost, under any interleaving of workers, producers, collector and reaper, with
  any of them crashing between any two calls and any call failing: an event that is accounted for at
  some point of a run is accounted for at every later point.
\<close>
theorem no_event_is_lost:
  assumes "started b S" and "sys_steps (world_deployment c cfg b dlq moka rcfg met) S U"
    and "accounted b (shared U) i" and "sys_steps (world_deployment c cfg b dlq moka rcfg met) U T"
  shows "accounted b (shared T) i"
proof -
  note U = sys.steps_progress[OF assms(2) started_inv[OF assms(1)]]
  from sys.steps_progress[OF assms(4), THEN conjunct2] U assms(3)
  show ?thesis unfolding safe_accounted by blast
qed

abbreviation sample_deployment :: "((my_event, string) world, my_event) deployment" where
  "sample_deployment \<equiv> world_deployment sample_client in_memory_config Tokio_channel True True sample_redis True"

abbreviation sample_system :: "string event list \<Rightarrow> ((my_event, string) world, my_event) system" where
  "sample_system rows \<equiv> \<lparr> shared = world_with rows, workers = (\<lambda>_. Idle), drained_entries = [] \<rparr>"

lemma sample_started: "started b (sample_system [row 1 Pending 0])"
  by (simp add: started_def pg_status_def row_status_def row_def world_with_def pg_ok_def)

abbreviation sample_steps :: "((my_event, string) world, my_event) system \<Rightarrow>
    ((my_event, string) world, my_event) system \<Rightarrow> bool" where
  "sample_steps \<equiv> world_fresh_steps sample_client in_memory_config Tokio_channel True True sample_redis True"

lemma sample_run_batch:
  "\<exists>T. sample_steps (sample_system [row 1 Pending 0]) T \<and> pg_status (shared T) (EventId 1) = Some Sent \<and>
     published Tokio_channel (shared T) = [EventId 1] \<and>
     pg_now (shared T) = 600000000 \<and> world_healthy sample_client Tokio_channel True sample_redis (shared T) \<and>
     (\<forall>i. failures True sample_redis (shared T) i = 0)"
proof -
  let ?S = "sample_system [row 1 Pending 0]"
  obtain r t where
    run: "process_pending_events (sys_processor sample_deployment) (sys_heap sample_deployment)
      (sys_metrics sample_deployment) (shared ?S) = (r, t)" and sent: "pg_status t (EventId 1) = Some Sent"
    and rest: "published Tokio_channel t = [EventId 1]" "pg_now t = 600000000"
      "world_healthy sample_client Tokio_channel True sample_redis t"
      "\<forall>i. failures True sample_redis t i = 0"
    by (simp add: sys_processor_def batch_run redis_run pg_run sample_run emit_success_def world_metrics_def
        world_healthy_def decodable_def redis_counts_def)
  have "runs sample_deployment (workers ?S 0, shared ?S) (Finished r, t)"
    using batch_runs[OF run] by simp
  moreover have "pg_ok (shared ?S)" by (simp add: row_def)
  ultimately have "sample_steps ?S (?S\<lparr> shared := t, workers := (workers ?S)(0 := Finished r) \<rparr>)"
    by (intro runs_are_fresh)
  with sent rest show ?thesis
    by (intro exI[of _ "?S\<lparr> shared := t, workers := (workers ?S)(0 := Finished r) \<rparr>"] conjI) simp_all
qed

lemma sample_batch:
  "\<exists>T. sys_steps sample_deployment (sample_system [row 1 Pending 0]) T \<and>
     pg_status (shared T) (EventId 1) = Some Sent"
  using sample_run_batch fresh_steps_are_steps by blast

theorem no_event_is_lost_witness:
  "\<exists>T. sys_steps sample_deployment (sample_system [row 1 Pending 0]) T \<and>
     pg_status (shared T) (EventId 1) = Some Sent \<and> accounted Tokio_channel (shared T) (EventId 1)"
proof -
  let ?S = "sample_system [row 1 Pending 0]"
  obtain T where T: "sys_steps sample_deployment ?S T" "pg_status (shared T) (EventId 1) = Some Sent"
    using sample_batch by blast
  have "accounted Tokio_channel (shared ?S) (EventId 1)"
    by (simp add: accounted_def pg_status_def row_status_def row_def world_with_def)
  from no_event_is_lost[OF sample_started rtranclp.rtrancl_refl this T(1)] T show ?thesis by blast
qed

text \<open>
  C2. Nothing is marked \<open>Sent\<close> that the broker has not taken, and the tables stay well formed, in every
  state such a deployment reaches: the primary keys, and with them the unique tokens of active rows.
\<close>
theorem sent_rows_were_published:
  assumes "started b S" and "sys_steps (world_deployment c cfg b dlq moka rcfg met) S T"
  shows "pg_ok (shared T) \<and> (\<forall>i. pg_status (shared T) i = Some Sent \<longrightarrow> i \<in> set (published b (shared T))) \<and>
    (schema_ok (shared S) \<longrightarrow> schema_ok (shared T))"
  using sys.steps_progress[OF assms(2) started_inv[OF assms(1)], THEN conjunct1] run_schema[OF assms(2)]
  unfolding sys.sys_inv_def sys.sent_accepted_def by blast

theorem sent_rows_were_published_witness:
  "\<exists>T. sys_steps sample_deployment (sample_system [row 1 Pending 0]) T \<and>
     EventId 1 \<in> set (published Tokio_channel (shared T))"
proof -
  obtain T where "sys_steps sample_deployment (sample_system [row 1 Pending 0]) T"
    "pg_status (shared T) (EventId 1) = Some Sent" using sample_batch by blast
  with sent_rows_were_published[OF sample_started this(1)] show ?thesis by blast
qed

text \<open>
  C9. A batch is a run of the worker: when one worker makes all the calls of its batch and nobody
  interferes, the deployment goes from the world before \<open>process_pending_events\<close> to the world after
  it, and the worker ends with its result. This holds of every storage, transport, heap and recorder.
\<close>
theorem uninterrupted_worker_runs_batch:
  assumes "workers S k = Idle"
    and "process_pending_events (sys_processor d) (sys_heap d) (sys_metrics d) (shared S) = (r, t)"
  shows "sys_steps d S (S\<lparr> shared := t, workers := (workers S)(k := Finished r) \<rparr>)"
  using runs_are_steps[of d S k "Finished r" t] batch_runs[OF assms(2)] assms(1) by simp

theorem uninterrupted_worker_runs_batch_witness:
  "\<exists>r t. process_pending_events (sys_processor sample_deployment) (sys_heap sample_deployment)
      (sys_metrics sample_deployment) (world_with []) = (r, t) \<and>
    sys_steps sample_deployment (sample_system [])
      ((sample_system [])\<lparr> shared := t, workers := (\<lambda>_. Idle)(3 := Finished r) \<rparr>)"
proof -
  obtain r t where run: "process_pending_events (sys_processor sample_deployment) (sys_heap sample_deployment)
      (sys_metrics sample_deployment) (shared (sample_system [])) = (r, t)" by fastforce
  have "workers (sample_system []) 3 = Idle" by simp
  from uninterrupted_worker_runs_batch[OF this run] run show ?thesis by (intro exI[of _ r] exI[of _ t]) simp
qed

section \<open>Many workers, and what follows an outage\<close>

text \<open>
  C3. One lock period, one delivery: from a deployment at rest, under any interleaving of workers,
  producers, collector and reaper, with crashes and failing calls, no two workers ever hold the same
  event and the broker is given no event twice, as long as the clock has not moved on by more than the
  lock timeout and generated ids are new.
\<close>
theorem one_delivery_per_lock_period:
  assumes "started b S" and "world_fresh_steps c cfg b dlq moka rcfg met S T"
    and "pg_now (shared T) \<le> pg_now (shared S) + minute * sint (lock_timeout_mins cfg)"
  shows "(\<exists>new. published b (shared T) = published b (shared S) @ new \<and> distinct new) \<and>
    (\<forall>k l. k \<noteq> l \<longrightarrow> set (hand (workers T k)) \<inter> set (hand (workers T l)) = {})"
  using leases.one_delivery[OF assms(2) started_inv[OF assms(1)] _ assms(3)] assms(1)
  by (simp add: started_def)

theorem one_delivery_per_lock_period_witness:
  "\<exists>T. sample_steps (sample_system [row 1 Pending 0]) T \<and> distinct (published Tokio_channel (shared T)) \<and>
     set (hand (workers T 0)) \<inter> set (hand (workers T 1)) = {} \<and> published Tokio_channel (shared T) = [EventId 1]"
proof -
  obtain T where T: "sample_steps (sample_system [row 1 Pending 0]) T"
    "published Tokio_channel (shared T) = [EventId 1]" "pg_now (shared T) = 600000000"
    using sample_run_batch by blast
  have "pg_now (shared T) \<le> pg_now (shared (sample_system [row 1 Pending 0])) +
      minute * sint (lock_timeout_mins in_memory_config)"
    using T(3) by (simp add: sample_run)
  from one_delivery_per_lock_period[OF sample_started T(1) this] T(1,2) show ?thesis
    by (intro exI[of _ T]) (simp add: world_with_def)
qed

text \<open>
  C4. After an outage everything is delivered: let a deployment run through any interleaving, with
  crashes and failing calls, until no call fails any more. Then one manager that polls, in any rhythm of
  as many blocks as the dead-letter threshold, each spanning the lock timeout, and one tick of the reaper
  put every event that was ever accounted for where it belongs: the broker has taken it, or it is a dead
  letter.
\<close>
theorem outage_is_recovered:
  fixes S T U :: "(('p, 'j) world, 'p) system"
  assumes start: "started b S" "orderly cfg (shared S)" "heap_keys rcfg (shared S)" "0 \<le> pg_now (shared S)"
    and runs: "world_fresh_steps c cfg b True moka rcfg met S U" "world_fresh_steps c cfg b True moka rcfg met U T"
    and known: "accounted b (shared U) i" and healthy: "world_healthy c b True rcfg (shared T)"
    and cfg: "0 \<le> sint (lock_timeout_mins cfg)" "batch_size cfg \<noteq> 0" "poll_interval_secs cfg \<noteq> 0"
    and room: "\<forall>j. failures moka rcfg (shared T) j + length (concat blocks) < 2 ^ 53"
    and polls: "\<forall>ds \<in> set blocks. lock_secs cfg \<le> sum_list ds" "blocks \<noteq> []"
      "unat (dlq_threshold cfg) \<le> length blocks"
  shows "\<exists>t u. manager_run (manager_of c cfg b moka rcfg) (world_recorder met) world_sleep
      (polls_after (concat blocks)) (shared T) = Return (Some (None, t)) \<and>
    dlq_tick (reaper_of c cfg moka rcfg) t = u \<and> (i \<in> set (published b u) \<or> i \<in> pg_dead u)"
proof -
  have all: "world_fresh_steps c cfg b True moka rcfg met S T" using runs by (rule rtranclp_trans)
  note inv = started_inv[OF start(1)]
  have sysU: "system_contract.sys_inv pg_status pg_ok (published b) U"
    using sys.steps_progress[OF fresh_steps_are_steps[OF runs(1)] inv] by blast
  have sysT: "system_contract.sys_inv pg_status pg_ok (published b) T" and "accounted b (shared T) i"
    using sys.steps_progress[OF fresh_steps_are_steps[OF runs(2)] sysU] known by (auto simp: safe_accounted)
  then have cases: "i \<in> waiting (shared T) \<or> i \<in> set (published b (shared T)) \<or> i \<in> pg_dead (shared T)"
    and ok: "pg_ok (shared T)"
    unfolding sys.sys_inv_def sys.sent_accepted_def accounted_def waiting_def
    by (metis (mono_tags, lifting) event_status.exhaust insertCI mem_Collect_eq not_None_eq)+
  have kept: "orderly cfg (shared T)" "heap_keys rcfg (shared T)"
    using run_orderly[OF all inv start(2-4) cfg(1)] by blast+
  have "\<forall>j. failures moka rcfg (shared T) j \<le> 2 ^ 53"
    using room by (meson add_leD1 less_imp_le_nat)
  from heap_keys_counts[OF kept(2) this] have "heap_ok moka rcfg (shared T)" .
  from manager_settles[OF ok healthy kept(1) this cfg room polls] cases show ?thesis by fastforce
qed

text \<open>
  In the witness the database refuses the first fetch of a worker; then it is back, and the row that
  waited is delivered (ten polls, one every hundred seconds as the example's configuration has it).
\<close>

theorem outage_is_recovered_witness:
  "\<exists>T t u. sample_steps ((sample_system [])\<lparr> shared := (world_with [row 1 Pending 0])
        \<lparr> pg_script := [quiet_env\<lparr> fault := Some (Refused ''down'') \<rparr>] \<rparr> \<rparr>) T \<and>
    workers T 0 = Finished (Inl (DatabaseError ''down'')) \<and>
    manager_run (manager_of sample_client in_memory_config Tokio_channel True sample_redis) (world_recorder True)
      world_sleep (polls_after (replicate 10 100)) (shared T) =
      Return (Some (None, t)) \<and>
    dlq_tick (reaper_of sample_client in_memory_config True sample_redis) t = u \<and>
    (EventId 1 \<in> set (published Tokio_channel u) \<or> EventId 1 \<in> pg_dead u)"
proof -
  let ?S = "(sample_system [])\<lparr> shared := (world_with [row 1 Pending 0])
    \<lparr> pg_script := [quiet_env\<lparr> fault := Some (Refused ''down'') \<rparr>] \<rparr> \<rparr>"
  let ?blocks = "replicate 10 [100] :: nat list list"
  let ?T = "?S\<lparr> shared := world_with [row 1 Pending 0],
    workers := (workers ?S)(0 := Finished (Inl (DatabaseError ''down''))) \<rparr>"
  have ok: "pg_ok (shared ?S)"
    by (simp add: pg_ok_def world_with_def row_def fair_scan_def quiet_env_def)
  have "runs sample_deployment (workers ?S 0, shared ?S) (Finished (Inl (DatabaseError ''down'')), world_with [row 1 Pending 0])"
    by (rule runs_one)
      (simp add: pg_fetch_next_to_process_def database_error_def and_then_def run_stmt_def next_env_def
        advance_def quiet_env_def world_with_def)
  from runs_are_fresh[OF ok this] have run: "sample_steps ?S ?T" .
  have start: "started Tokio_channel ?S" "orderly in_memory_config (shared ?S)" "heap_keys sample_redis (shared ?S)"
    "0 \<le> pg_now (shared ?S)"
    using ok by (simp_all add: started_def pg_status_def row_status_def orderly_def heap_keys_def world_zset_def
        zset_list_def sample_run)
  have known: "accounted Tokio_channel (shared ?S) (EventId 1)"
    by (simp add: accounted_def pg_status_def row_status_def row_def world_with_def)
  have healthy: "world_healthy sample_client Tokio_channel True sample_redis (shared ?T)"
    by (simp add: world_healthy_def decodable_def sample_run world_str_def str_lookup_def)
  have cfg: "0 \<le> sint (lock_timeout_mins in_memory_config)" "batch_size in_memory_config \<noteq> 0"
    "poll_interval_secs in_memory_config \<noteq> 0" "\<forall>ds \<in> set ?blocks. lock_secs in_memory_config \<le> sum_list ds"
    "?blocks \<noteq> []" "unat (dlq_threshold in_memory_config) \<le> length ?blocks"
    by (simp_all add: in_memory_config_def lock_secs_def)
  have room: "\<forall>j. failures True sample_redis (shared ?T) j + length (concat ?blocks) < 2 ^ 53" by simp
  have "concat ?blocks = replicate 10 100" by (simp add: numeral_nat)
  with outage_is_recovered[OF start rtranclp.rtrancl_refl run known healthy cfg(1-3) room cfg(4-6)] run
  show ?thesis by (intro exI[of _ ?T]) auto
qed

end
